theory Spec2Isabelle
  imports Main "HOL-Library.Multiset"
begin

section \<open>Dates\<close>

text \<open>
  A JavaScript \<open>Date\<close> is its time value: the number of milliseconds since the epoch,
  an integer.  The stored \<open>startTime\<close>/\<open>endTime\<close> strings are ISO-8601 instants;
  \<open>new Date(s).getTime()\<close> and \<open>toISOString()\<close> convert between the two without loss,
  so the model keeps the time value itself.  The local-time accessors are the ECMAScript
  ones for a zone with a constant offset (taken as zero: no daylight-saving jumps).
\<close>

type_synonym Date = int

definition msPerDay :: int where
  "msPerDay = 86400000"

definition Day :: "Date \<Rightarrow> int" where
  "Day t = t div msPerDay"

definition TimeWithinDay :: "Date \<Rightarrow> int" where
  "TimeWithinDay t = t mod msPerDay"

text \<open>Year, month and day of the month of a day number in the proleptic Gregorian
  calendar, as \<open>YearFromTime\<close>, \<open>MonthFromTime\<close> and \<open>DateFromTime\<close> give them.  Days
  are counted from 1 March of year 0 in eras of 400 years; every step is a function of
  its own, so that a concrete date evaluates from the inside out.\<close>

definition dayOfEra :: "int \<Rightarrow> int" where
  "dayOfEra d = (d + 719468) mod 146097"

definition eraOf :: "int \<Rightarrow> int" where
  "eraOf d = (d + 719468) div 146097"

definition yearOfEra :: "int \<Rightarrow> int" where
  "yearOfEra doe = (doe - doe div 1460 + doe div 36524 - doe div 146096) div 365"

definition dayOfMarchYear :: "int \<Rightarrow> int \<Rightarrow> int" where
  "dayOfMarchYear doe yoe = doe - (365 * yoe + yoe div 4 - yoe div 100)"

definition marchMonth :: "int \<Rightarrow> int" where
  "marchMonth doy = (5 * doy + 2) div 153"

definition dayInMonth :: "int \<Rightarrow> int \<Rightarrow> int" where
  "dayInMonth doy mp = doy - (153 * mp + 2) div 5 + 1"

definition civilMonth :: "int \<Rightarrow> int" where
  "civilMonth mp = (if mp < 10 then mp + 3 else mp - 9)"

definition civilYear :: "int \<Rightarrow> int \<Rightarrow> int \<Rightarrow> int" where
  "civilYear era yoe m = yoe + era * 400 + (if m \<le> 2 then 1 else 0)"

definition doyOfDoe :: "int \<Rightarrow> int" where
  "doyOfDoe doe = dayOfMarchYear doe (yearOfEra doe)"

definition DateFromDay :: "int \<Rightarrow> int" where
  "DateFromDay d = dayInMonth (doyOfDoe (dayOfEra d)) (marchMonth (doyOfDoe (dayOfEra d)))"

definition MonthFromDay :: "int \<Rightarrow> int" where
  "MonthFromDay d = civilMonth (marchMonth (doyOfDoe (dayOfEra d)))"

definition YearFromDay :: "int \<Rightarrow> int" where
  "YearFromDay d = civilYear (eraOf d) (yearOfEra (dayOfEra d)) (MonthFromDay d)"

definition getFullYear :: "Date \<Rightarrow> int" where
  "getFullYear t = YearFromDay (Day t)"

definition getMonth :: "Date \<Rightarrow> int" where
  "getMonth t = MonthFromDay (Day t) - 1"

definition getDate :: "Date \<Rightarrow> int" where
  "getDate t = DateFromDay (Day t)"

definition getDay :: "Date \<Rightarrow> int" where
  "getDay t = (Day t + 4) mod 7"

definition getHours :: "Date \<Rightarrow> int" where
  "getHours t = TimeWithinDay t div 3600000"

definition getMinutes :: "Date \<Rightarrow> int" where
  "getMinutes t = (TimeWithinDay t div 60000) mod 60"

text \<open>\<open>d.setHours(h, m, 0, 0)\<close>: the same day, at \<open>h\<close> hours and \<open>m\<close> minutes.\<close>

definition setHours :: "Date \<Rightarrow> int \<Rightarrow> int \<Rightarrow> Date" where
  "setHours t h m = Day t * msPerDay + h * 3600000 + m * 60000"

text \<open>\<open>d.setSeconds(0, 0)\<close>: the time value cut down to the whole minute.\<close>

definition setSeconds0 :: "Date \<Rightarrow> Date" where
  "setSeconds0 t = t - t mod 60000"

text \<open>The test on year, month and day of the month that the sources write out;
  \<open>a.toDateString() === b.toDateString()\<close> compares the same three numbers (and the
  weekday they determine).\<close>

definition sameCalendarDay :: "Date \<Rightarrow> Date \<Rightarrow> bool" where
  "sameCalendarDay a b =
     (getFullYear a = getFullYear b \<and> getMonth a = getMonth b \<and> getDate a = getDate b)"

section \<open>Data model\<close>

text \<open>The fields that the scheduling code reads.  Quantities and minutes per unit are
  JavaScript numbers without a fractional part, hence integers; a date is its time value.\<close>

datatype ProductClassification = TopSeller | Normal

datatype ScheduleStatus = Pendente | EmProgresso | Concluido | Cancelado

record ProcessingTime =
  equipmentId :: string
  timePerUnitMinutes :: int

record Product =
  p_id :: string
  p_name :: string
  processingTimes :: "ProcessingTime list"
  classification :: ProductClassification

record OperatingDayTime =
  dayOfWeek :: int
  oh_startTime :: string
  oh_endTime :: string
  isActive :: bool

record ProductionLine =
  l_id :: string
  l_name :: string
  equipmentIds :: "string list"
  operatingHours :: "OperatingDayTime list"

record ScheduledProductionRun =
  s_id :: string
  productId :: string
  lineId :: string
  startTime :: Date
  endTime :: Date
  quantity :: int
  s_notes :: "string option"
  status :: ScheduleStatus

definition getProductById :: "Product list \<Rightarrow> string \<Rightarrow> Product option" where
  "getProductById products i = find (\<lambda>p. p_id p = i) products"

definition getProductionLineById :: "ProductionLine list \<Rightarrow> string \<Rightarrow> ProductionLine option" where
  "getProductionLineById productionLines i = find (\<lambda>l. l_id l = i) productionLines"

section \<open>Times of day\<close>

text \<open>\<open>Number(s)\<close> on the decimal numerals that an \<open>HH:MM\<close> time consists of; the empty
  string is 0.  Other text (for which JavaScript gives \<open>NaN\<close>) is outside the model.\<close>

definition digitValue :: "char \<Rightarrow> int" where
  "digitValue c = int (of_char c) - 48"

definition Number :: "string \<Rightarrow> int" where
  "Number s = foldl (\<lambda>acc c. acc * 10 + digitValue c) 0 s"

text \<open>The first two fields of \<open>timeStr.split(':')\<close>.\<close>

definition splitColon :: "string \<Rightarrow> string \<times> string" where
  "splitColon s =
     (takeWhile (\<lambda>c. c \<noteq> CHR '':'') s,
      takeWhile (\<lambda>c. c \<noteq> CHR '':'') (drop 1 (dropWhile (\<lambda>c. c \<noteq> CHR '':'') s)))"

definition timeToMinutes :: "string \<Rightarrow> int" where
  "timeToMinutes timeStr =
     (if timeStr = [] \<or> CHR '':'' \<notin> set timeStr then 0
      else (case splitColon timeStr of (hours, minutes) \<Rightarrow> Number hours * 60 + Number minutes))"

text \<open>\<open>d.getHours() * 60 + d.getMinutes()\<close>, which both the optimizer and the chart
  compare with the operating hours.\<close>

definition minutesOfDay :: "Date \<Rightarrow> int" where
  "minutesOfDay t = getHours t * 60 + getMinutes t"

section \<open>Duration calculator\<close>

definition productTimeForEq :: "Product \<Rightarrow> string \<Rightarrow> ProcessingTime option" where
  "productTimeForEq product eqIdInLine =
     find (\<lambda>pt. equipmentId pt = eqIdInLine) (processingTimes product)"

definition totalDurationForOneUnit :: "Product \<Rightarrow> string list \<Rightarrow> int" where
  "totalDurationForOneUnit product eqs =
     foldl (\<lambda>total eqIdInLine.
              (case productTimeForEq product eqIdInLine of
                 Some pt \<Rightarrow> total + timePerUnitMinutes pt
               | None \<Rightarrow> total)) 0 eqs"

definition calculateProductDurationOnLine :: "Product \<Rightarrow> ProductionLine \<Rightarrow> int \<Rightarrow> int" where
  "calculateProductDurationOnLine product line qty =
     (if qty \<le> 0 then 0
      else if processingTimes product = [] then 0
      else if equipmentIds line = [] then 0
      else totalDurationForOneUnit product (equipmentIds line) * qty)"

section \<open>Run status clock\<close>

definition newStatus :: "Date \<Rightarrow> ScheduledProductionRun \<Rightarrow> ScheduleStatus" where
  "newStatus currentTime schedule =
     (if status schedule = Pendente \<and> currentTime \<ge> startTime schedule
           \<and> currentTime < endTime schedule then EmProgresso
      else if status schedule = EmProgresso \<and> currentTime \<ge> endTime schedule then Concluido
      else status schedule)"

text \<open>The list \<open>schedulesToUpdate\<close> that one firing of the interval collects.\<close>

definition clockUpdates :: "Date \<Rightarrow> ScheduledProductionRun list \<Rightarrow> ScheduledProductionRun list" where
  "clockUpdates currentTime schedules =
     concat (map (\<lambda>schedule.
        if status schedule \<noteq> Cancelado \<and> status schedule \<noteq> Concluido
             \<and> newStatus currentTime schedule \<noteq> status schedule
        then [schedule\<lparr>status := newStatus currentTime schedule\<rparr>] else []) schedules)"

text \<open>\<open>updateScheduleOp\<close> when the store accepts the row and hands it back: the run
  with that id is replaced and the list is sorted by start again.\<close>

definition updateScheduleOp ::
  "ScheduledProductionRun \<Rightarrow> ScheduledProductionRun list \<Rightarrow> ScheduledProductionRun list" where
  "updateScheduleOp item prev =
     sort_key startTime (map (\<lambda>s. if s_id s = s_id item then item else s) prev)"

definition clockTick :: "Date \<Rightarrow> ScheduledProductionRun list \<Rightarrow> ScheduledProductionRun list" where
  "clockTick currentTime schedules =
     foldl (\<lambda>acc sched. updateScheduleOp sched acc) schedules (clockUpdates currentTime schedules)"

section \<open>Day optimizer\<close>

text \<open>\<open>[...new Set(xs)]\<close>: the distinct elements in the order of their first occurrence.\<close>

definition uniq :: "'a list \<Rightarrow> 'a list" where
  "uniq xs = foldl (\<lambda>acc x. if x \<in> set acc then acc else acc @ [x]) [] xs"

definition classificationOf :: "Product list \<Rightarrow> ScheduledProductionRun \<Rightarrow> ProductClassification option" where
  "classificationOf products schedule =
     map_option classification (getProductById products (productId schedule))"

text \<open>The partition of a line's runs of the day (the \<open>forEach\<close>): the fixed runs, the
  Normal and pending runs to optimize, and the runs counted as not optimized.\<close>

record Partition =
  fixedSchedulesOnThisLine :: "ScheduledProductionRun list"
  normalPendingSchedulesForOptimization :: "ScheduledProductionRun list"
  keptCount :: nat

definition partitionStep :: "Product list \<Rightarrow> Partition \<Rightarrow> ScheduledProductionRun \<Rightarrow> Partition" where
  "partitionStep products acc schedule =
     (if classificationOf products schedule = Some TopSeller
          \<or> (classificationOf products schedule = Some Normal \<and> status schedule \<noteq> Pendente)
      then acc\<lparr>fixedSchedulesOnThisLine := fixedSchedulesOnThisLine acc @ [schedule],
               keptCount := (if classificationOf products schedule = Some Normal
                             then keptCount acc + 1 else keptCount acc)\<rparr>
      else if classificationOf products schedule = Some Normal \<and> status schedule = Pendente
      then acc\<lparr>normalPendingSchedulesForOptimization :=
                  normalPendingSchedulesForOptimization acc @ [schedule]\<rparr>
      else acc\<lparr>fixedSchedulesOnThisLine := fixedSchedulesOnThisLine acc @ [schedule],
               keptCount := keptCount acc + 1\<rparr>)"

definition partitionSchedules :: "Product list \<Rightarrow> ScheduledProductionRun list \<Rightarrow> Partition" where
  "partitionSchedules products schedulesForThisLineToday =
     foldl (partitionStep products)
       \<lparr>fixedSchedulesOnThisLine = [], normalPendingSchedulesForOptimization = [], keptCount = 0\<rparr>
       schedulesForThisLineToday"

text \<open>The collision scan over the occupied slots: the first item, in the order of the
  list, that the proposed interval overlaps.\<close>

definition collidingSlot ::
  "Date \<Rightarrow> Date \<Rightarrow> ScheduledProductionRun list \<Rightarrow> ScheduledProductionRun option" where
  "collidingSlot proposedStartTime proposedEndTime currentAvailableSlots =
     find (\<lambda>existingItem. proposedStartTime < endTime existingItem
                          \<and> proposedEndTime > startTime existingItem) currentAvailableSlots"

text \<open>The \<open>while (true)\<close> search for a slot.  \<open>None\<close> is a \<open>break\<close> with no slot found.
  Every retry starts at the end of an item that the attempt collided with, which lies
  after the attempt, so the items that end after the attempt become fewer.\<close>

function searchSlot ::
  "Date \<Rightarrow> int \<Rightarrow> int \<Rightarrow> Date \<Rightarrow> ScheduledProductionRun list \<Rightarrow> Date \<Rightarrow> (Date \<times> Date) option" where
  "searchSlot targetDayStart lineOpEndMinutes durationMinutes effectiveStart slots attemptStartTime =
     (if getDate attemptStartTime \<noteq> getDate targetDayStart
           \<or> minutesOfDay attemptStartTime \<ge> lineOpEndMinutes then None
      else if (getDate (attemptStartTime + durationMinutes * 60000) \<noteq> getDate targetDayStart
               \<or> minutesOfDay (attemptStartTime + durationMinutes * 60000) > lineOpEndMinutes)
            \<and> \<not> (getDate (attemptStartTime + durationMinutes * 60000) = getDate targetDayStart
                   \<and> minutesOfDay (attemptStartTime + durationMinutes * 60000) = lineOpEndMinutes)
      then None
      else (case collidingSlot attemptStartTime (attemptStartTime + durationMinutes * 60000) slots of
              Some existingItem \<Rightarrow>
                searchSlot targetDayStart lineOpEndMinutes durationMinutes effectiveStart slots
                  (max (endTime existingItem) effectiveStart)
            | None \<Rightarrow> Some (attemptStartTime, attemptStartTime + durationMinutes * 60000)))"
  by pat_completeness auto
termination
proof (relation "measure (\<lambda>(t, oe, d, eff, slots, a). length (filter (\<lambda>e. a < endTime e) slots))",
    goal_cases)
  case 1
  show ?case by simp
next
  case (2 t oe d eff slots a e)
  from 2(3) have mem: "e \<in> set slots" and lt: "a < endTime e"
    by (auto simp: collidingSlot_def find_Some_iff)
  let ?a' = "max (endTime e) eff"
  have "filter (\<lambda>x. ?a' < endTime x) slots
          = filter (\<lambda>x. ?a' < endTime x) (filter (\<lambda>x. a < endTime x) slots)"
    using lt by (auto intro!: filter_cong)
  moreover have "length (filter (\<lambda>x. ?a' < endTime x) (filter (\<lambda>x. a < endTime x) slots))
          < length (filter (\<lambda>x. a < endTime x) slots)"
    by (rule length_filter_less [of e]) (use mem lt in auto)
  ultimately show ?case by simp
qed

definition lineOpHoursForDay :: "ProductionLine \<Rightarrow> int \<Rightarrow> OperatingDayTime option" where
  "lineOpHoursForDay line dow = find (\<lambda>oh. dayOfWeek oh = dow) (operatingHours line)"

text \<open>The search origin: the start of the operating hours on the target day, or the
  current minute when the target day is today and that minute is later.  The start of
  the operating hours is a time of day, not negative, so that \<open>Math.floor(m / 60)\<close> and
  \<open>m % 60\<close> are \<open>div\<close> and \<open>mod\<close>.\<close>

definition effectiveStartOfSearchWindow :: "Date \<Rightarrow> bool \<Rightarrow> Date \<Rightarrow> int \<Rightarrow> Date" where
  "effectiveStartOfSearchWindow targetDayStart isToday now lineOpStartMinutes =
     (if isToday \<and> setSeconds0 now
           > setHours targetDayStart (lineOpStartMinutes div 60) (lineOpStartMinutes mod 60)
      then setSeconds0 now
      else setHours targetDayStart (lineOpStartMinutes div 60) (lineOpStartMinutes mod 60))"

definition searchFrom ::
  "Date \<Rightarrow> int \<Rightarrow> int \<Rightarrow> ScheduledProductionRun list \<Rightarrow> Date \<Rightarrow> (Date \<times> Date) option" where
  "searchFrom targetDayStart lineOpEndMinutes durationMinutes slots effectiveStart =
     (if minutesOfDay effectiveStart \<ge> lineOpEndMinutes then None
      else searchSlot targetDayStart lineOpEndMinutes durationMinutes effectiveStart slots
             effectiveStart)"

text \<open>The body of the loop over the runs to optimize, up to the slot found: \<open>None\<close> on
  every path that leaves the run where it is and counts it as not optimized.\<close>

definition findPlacement ::
  "Product list \<Rightarrow> ProductionLine \<Rightarrow> Date \<Rightarrow> bool \<Rightarrow> Date \<Rightarrow> ScheduledProductionRun list
     \<Rightarrow> ScheduledProductionRun \<Rightarrow> (Date \<times> Date) option" where
  "findPlacement products line targetDayStart isToday now slots normalSchedule =
     (case getProductById products (productId normalSchedule) of
        None \<Rightarrow> None
      | Some product \<Rightarrow>
          if calculateProductDurationOnLine product line (quantity normalSchedule) \<le> 0 then None
          else (case lineOpHoursForDay line (getDay targetDayStart) of
                  None \<Rightarrow> None
                | Some oh \<Rightarrow>
                    if \<not> isActive oh then None
                    else searchFrom targetDayStart (timeToMinutes (oh_endTime oh))
                           (calculateProductDurationOnLine product line (quantity normalSchedule))
                           slots
                           (effectiveStartOfSearchWindow targetDayStart isToday now
                              (timeToMinutes (oh_startTime oh)))))"

record OptState =
  currentAvailableSlots :: "ScheduledProductionRun list"
  schedulesToUpdate :: "ScheduledProductionRun list"
  optimizedCount :: nat
  unoptimizedCount :: nat

definition placeStep ::
  "Product list \<Rightarrow> ProductionLine \<Rightarrow> Date \<Rightarrow> bool \<Rightarrow> Date \<Rightarrow> OptState
     \<Rightarrow> ScheduledProductionRun \<Rightarrow> OptState" where
  "placeStep products line targetDayStart isToday now st normalSchedule =
     (case findPlacement products line targetDayStart isToday now (currentAvailableSlots st)
             normalSchedule of
        None \<Rightarrow> st\<lparr>unoptimizedCount := unoptimizedCount st + 1\<rparr>
      | Some (proposedStartTime, proposedEndTime) \<Rightarrow>
          st\<lparr>schedulesToUpdate := schedulesToUpdate st
                 @ [normalSchedule\<lparr>startTime := proposedStartTime, endTime := proposedEndTime\<rparr>],
             currentAvailableSlots := sort_key startTime (currentAvailableSlots st
                 @ [normalSchedule\<lparr>startTime := proposedStartTime, endTime := proposedEndTime\<rparr>]),
             optimizedCount := optimizedCount st + 1\<rparr>)"

definition isNormalPending :: "Product list \<Rightarrow> ScheduledProductionRun \<Rightarrow> bool" where
  "isNormalPending products s =
     (classificationOf products s = Some Normal \<and> status s = Pendente)"

definition processLine ::
  "Product list \<Rightarrow> ProductionLine list \<Rightarrow> ScheduledProductionRun list \<Rightarrow> Date \<Rightarrow> bool \<Rightarrow> Date
     \<Rightarrow> OptState \<Rightarrow> string \<Rightarrow> OptState" where
  "processLine products productionLines startingOnTargetDay targetDayStart isToday now
     st lineId' =
     (case getProductionLineById productionLines lineId' of
        None \<Rightarrow>
          st\<lparr>unoptimizedCount := unoptimizedCount st
               + length (filter (isNormalPending products)
                   (filter (\<lambda>s. lineId s = lineId') startingOnTargetDay))\<rparr>
      | Some line \<Rightarrow>
          foldl (placeStep products line targetDayStart isToday now)
            (st\<lparr>currentAvailableSlots :=
                   sort_key startTime (fixedSchedulesOnThisLine (partitionSchedules products
                     (filter (\<lambda>s. lineId s = lineId') startingOnTargetDay))),
                unoptimizedCount := unoptimizedCount st
                   + keptCount (partitionSchedules products
                       (filter (\<lambda>s. lineId s = lineId') startingOnTargetDay))\<rparr>)
            (sort_key startTime (normalPendingSchedulesForOptimization (partitionSchedules products
               (filter (\<lambda>s. lineId s = lineId') startingOnTargetDay)))))"

definition schedulesStartingOnTargetDay ::
  "ScheduledProductionRun list \<Rightarrow> Date \<Rightarrow> ScheduledProductionRun list" where
  "schedulesStartingOnTargetDay schedules targetDayStart =
     filter (\<lambda>s. sameCalendarDay (startTime s) targetDayStart) schedules"

text \<open>\<open>optimizeDaySchedulesOp\<close> up to the writes to the store: \<open>now\<close> is the clock
  reading of the call.  The final state holds the counts returned and the list
  \<open>schedulesToUpdate\<close> of the placements.\<close>

definition optimizeDaySchedulesOp ::
  "Product list \<Rightarrow> ProductionLine list \<Rightarrow> ScheduledProductionRun list \<Rightarrow> Date \<Rightarrow> Date \<Rightarrow> OptState" where
  "optimizeDaySchedulesOp products productionLines schedules now dateToOptimize =
     foldl (processLine products productionLines
              (schedulesStartingOnTargetDay schedules (setHours dateToOptimize 0 0))
              (setHours dateToOptimize 0 0)
              (sameCalendarDay (setHours dateToOptimize 0 0) now) now)
       \<lparr>currentAvailableSlots = [], schedulesToUpdate = [], optimizedCount = 0,
        unoptimizedCount = 0\<rparr>
       (uniq (map lineId (schedulesStartingOnTargetDay schedules (setHours dateToOptimize 0 0))))"

text \<open>The schedule list after the placements have been written, one by one.\<close>

definition applyUpdates ::
  "ScheduledProductionRun list \<Rightarrow> ScheduledProductionRun list \<Rightarrow> ScheduledProductionRun list" where
  "applyUpdates updates schedules = foldl (\<lambda>acc sched. updateScheduleOp sched acc) schedules updates"

section \<open>Validation of a drop on the chart\<close>

datatype DropMessage =
    NotFound
  | StatusNotMovable string ScheduleStatus
  | LineNotOperating string
  | OutsideOperatingHours string string
  | PastTime Date
  | ConflictTopSeller string
  | ConflictNormal string

record DropValidity =
  valid :: bool
  message :: "DropMessage option"

definition rejected :: "DropMessage \<Rightarrow> DropValidity" where
  "rejected m = \<lparr>valid = False, message = Some m\<rparr>"

definition getLineOperatingHoursForDay ::
  "ProductionLine list \<Rightarrow> Date \<Rightarrow> string \<Rightarrow> OperatingDayTime option" where
  "getLineOperatingHoursForDay productionLines day lineId' =
     (case getProductionLineById productionLines lineId' of
        None \<Rightarrow> None
      | Some line \<Rightarrow> find (\<lambda>oh. dayOfWeek oh = getDay day) (operatingHours line))"

definition schedulesOnTargetDayAndLine ::
  "ScheduledProductionRun list \<Rightarrow> Date \<Rightarrow> ScheduledProductionRun \<Rightarrow> string
     \<Rightarrow> ScheduledProductionRun list" where
  "schedulesOnTargetDayAndLine allSchedules day item targetLineId =
     filter (\<lambda>s. lineId s = targetLineId \<and> s_id s \<noteq> s_id item
                 \<and> sameCalendarDay (startTime s) day) allSchedules"

text \<open>The loop over the other runs of the line: the first one whose product is known
  and that the new interval overlaps decides the message.\<close>

fun conflictMessage ::
  "Product list \<Rightarrow> Date \<Rightarrow> Date \<Rightarrow> ScheduledProductionRun list \<Rightarrow> DropMessage option" where
  "conflictMessage products newStartTime newEndTime [] = None"
| "conflictMessage products newStartTime newEndTime (existingSchedule # rest) =
     (case getProductById products (productId existingSchedule) of
        None \<Rightarrow> conflictMessage products newStartTime newEndTime rest
      | Some existingProduct \<Rightarrow>
          if newStartTime < endTime existingSchedule \<and> newEndTime > startTime existingSchedule
          then (if classification existingProduct = TopSeller
                then Some (ConflictTopSeller (p_name existingProduct))
                else Some (ConflictNormal (p_name existingProduct)))
          else conflictMessage products newStartTime newEndTime rest)"

text \<open>The test of the operating hours, true when the drop is refused.\<close>

definition outsideOperatingHours :: "Date \<Rightarrow> int \<Rightarrow> int \<Rightarrow> Date \<Rightarrow> Date \<Rightarrow> bool" where
  "outsideOperatingHours day opStartMinutes opEndMinutes newStartTime newEndTime =
     ((getDate newStartTime \<noteq> getDate day \<or> minutesOfDay newStartTime < opStartMinutes
        \<or> getDate newEndTime \<noteq> getDate day \<or> minutesOfDay newEndTime > opEndMinutes)
      \<and> \<not> (getDate newEndTime = getDate day \<and> minutesOfDay newEndTime = opEndMinutes
             \<and> minutesOfDay newStartTime \<ge> opStartMinutes))"

text \<open>\<open>checkDropValidity\<close>.  \<open>todayDate\<close> is the clock reading behind \<open>isChartForToday\<close>,
  \<open>currentTime\<close> the chart's property of that name.  The new end is the new start plus
  the run's length (the division by 60000 and the multiplication back are exact).\<close>

definition checkDropValidity ::
  "Product list \<Rightarrow> ProductionLine list \<Rightarrow> ScheduledProductionRun list \<Rightarrow> Date \<Rightarrow> Date \<Rightarrow> Date
     \<Rightarrow> ScheduledProductionRun \<Rightarrow> string \<Rightarrow> Date \<Rightarrow> DropValidity" where
  "checkDropValidity products productionLines allSchedules day todayDate currentTime
     item targetLineId newStartTime =
     (case getProductById products (productId item) of
        None \<Rightarrow> rejected NotFound
      | Some product \<Rightarrow>
     (case getProductionLineById productionLines targetLineId of
        None \<Rightarrow> rejected NotFound
      | Some targetLine \<Rightarrow>
          if status item \<noteq> Pendente then rejected (StatusNotMovable (p_name product) (status item))
          else (case getLineOperatingHoursForDay productionLines day targetLineId of
                  None \<Rightarrow> rejected (LineNotOperating (l_name targetLine))
                | Some lineOpHours \<Rightarrow>
                    if \<not> isActive lineOpHours then rejected (LineNotOperating (l_name targetLine))
                    else if outsideOperatingHours day (timeToMinutes (oh_startTime lineOpHours))
                              (timeToMinutes (oh_endTime lineOpHours)) newStartTime
                              (newStartTime + (endTime item - startTime item))
                    then rejected (OutsideOperatingHours (oh_startTime lineOpHours)
                                     (oh_endTime lineOpHours))
                    else if sameCalendarDay day todayDate \<and> newStartTime < setSeconds0 currentTime
                    then rejected (PastTime (setSeconds0 currentTime))
                    else (case conflictMessage products newStartTime
                                 (newStartTime + (endTime item - startTime item))
                                 (schedulesOnTargetDayAndLine allSchedules day item targetLineId) of
                            Some m \<Rightarrow> rejected m
                          | None \<Rightarrow> \<lparr>valid = True, message = None\<rparr>))))"

section \<open>The drag gesture of the chart\<close>

text \<open>The component state that the drag handlers read and write, with \<open>null\<close> as
  \<open>None\<close>.  The pointer is read as the snapped minute of the chart's day that it gives
  (\<open>snappedMinutes\<close>); the click offset kept beside the dragged run, which enters that
  computation only, and the feedback messages are left out.  The properties of the chart
  are one snapshot for the length of a gesture.\<close>

record ChartState =
  draggedItem :: "ScheduledProductionRun option"
  dropTargetLineId :: "string option"
  isDropValid :: "bool option"

definition noDrag :: ChartState where
  "noDrag = \<lparr>draggedItem = None, dropTargetLineId = None, isDropValid = None\<rparr>"

text \<open>The attribute \<open>draggable\<close> of a run's element, which also guards its
  \<open>onDragStart\<close>.\<close>

definition isDraggable :: "Product list \<Rightarrow> ScheduledProductionRun \<Rightarrow> bool" where
  "isDraggable products scheduleItem =
     (classificationOf products scheduleItem \<noteq> Some TopSeller \<and> status scheduleItem = Pendente)"

definition handleDragStart :: "Product list \<Rightarrow> ChartState \<Rightarrow> ScheduledProductionRun \<Rightarrow> ChartState" where
  "handleDragStart products st scheduleItem =
     (if classificationOf products scheduleItem = Some TopSeller \<or> status scheduleItem \<noteq> Pendente
      then st
      else st\<lparr>draggedItem := Some scheduleItem\<rparr>)"

text \<open>\<open>new Date(day)\<close> with \<open>setHours(Math.floor(snappedMinutes / 60), snappedMinutes % 60, 0, 0)\<close>;
  the snapped minute is not negative.\<close>

definition snappedStartTime :: "Date \<Rightarrow> int \<Rightarrow> Date" where
  "snappedStartTime day snappedMinutes = setHours day (snappedMinutes div 60) (snappedMinutes mod 60)"

definition handleDragOver ::
  "Product list \<Rightarrow> ProductionLine list \<Rightarrow> ScheduledProductionRun list \<Rightarrow> Date \<Rightarrow> Date \<Rightarrow> Date
     \<Rightarrow> ChartState \<Rightarrow> string \<Rightarrow> int \<Rightarrow> ChartState" where
  "handleDragOver products productionLines allSchedules day todayDate currentTime
     st lineId' snappedMinutes =
     (case draggedItem st of
        None \<Rightarrow> st
      | Some item \<Rightarrow>
          st\<lparr>dropTargetLineId := Some lineId',
             isDropValid := Some (valid (checkDropValidity products productionLines allSchedules
                                           day todayDate currentTime item lineId'
                                           (snappedStartTime day snappedMinutes)))\<rparr>)"

text \<open>\<open>handleDrop\<close>, with the row that it hands to \<open>updateSchedule\<close>, if any.\<close>

definition handleDrop ::
  "Date \<Rightarrow> ChartState \<Rightarrow> string \<Rightarrow> int \<Rightarrow> ChartState \<times> ScheduledProductionRun option" where
  "handleDrop day st targetLineId snappedMinutes =
     (case draggedItem st of
        None \<Rightarrow> (noDrag, None)
      | Some item \<Rightarrow>
          if isDropValid st \<noteq> Some True then (noDrag, None)
          else (noDrag,
                Some (item\<lparr>lineId := targetLineId,
                           startTime := snappedStartTime day snappedMinutes,
                           endTime := snappedStartTime day snappedMinutes
                                        + (endTime item - startTime item)\<rparr>)))"

definition handleDragEnd :: "ChartState \<Rightarrow> ChartState" where
  "handleDragEnd st = noDrag"

text \<open>The events of the chart and the handler that each one runs.\<close>

datatype ChartEvent =
    DragStart ScheduledProductionRun
  | DragOver string int
  | Drop string int
  | DragEnd

definition chartStep ::
  "Product list \<Rightarrow> ProductionLine list \<Rightarrow> ScheduledProductionRun list \<Rightarrow> Date \<Rightarrow> Date \<Rightarrow> Date
     \<Rightarrow> ChartState \<Rightarrow> ChartEvent \<Rightarrow> ChartState \<times> ScheduledProductionRun option" where
  "chartStep products productionLines allSchedules day todayDate currentTime st ev =
     (case ev of
        DragStart scheduleItem \<Rightarrow>
          (if isDraggable products scheduleItem then handleDragStart products st scheduleItem
           else st, None)
      | DragOver lineId' snappedMinutes \<Rightarrow>
          (handleDragOver products productionLines allSchedules day todayDate currentTime
             st lineId' snappedMinutes, None)
      | Drop targetLineId snappedMinutes \<Rightarrow> handleDrop day st targetLineId snappedMinutes
      | DragEnd \<Rightarrow> (handleDragEnd st, None))"

text \<open>The rows handed to \<open>updateSchedule\<close> in the course of a sequence of events.\<close>

fun movesOf ::
  "Product list \<Rightarrow> ProductionLine list \<Rightarrow> ScheduledProductionRun list \<Rightarrow> Date \<Rightarrow> Date \<Rightarrow> Date
     \<Rightarrow> ChartState \<Rightarrow> ChartEvent list \<Rightarrow> ScheduledProductionRun list" where
  "movesOf products productionLines allSchedules day todayDate currentTime st [] = []"
| "movesOf products productionLines allSchedules day todayDate currentTime st (ev # evs) =
     (case chartStep products productionLines allSchedules day todayDate currentTime st ev of
        (st', moved) \<Rightarrow>
          (case moved of None \<Rightarrow> [] | Some row \<Rightarrow> [row])
            @ movesOf products productionLines allSchedules day todayDate currentTime st' evs)"

section \<open>The claims' notions\<close>

text \<open>The claim's words: the product's minutes per unit on an equipment (0 when the
  profile has no entry for it), summed over the line's equipment and multiplied by the
  quantity.\<close>

definition perUnitMinutes :: "Product \<Rightarrow> string \<Rightarrow> int" where
  "perUnitMinutes product eqId =
     (case map_of (map (\<lambda>pt. (equipmentId pt, timePerUnitMinutes pt)) (processingTimes product)) eqId of
        None \<Rightarrow> 0 | Some t \<Rightarrow> t)"

definition specDuration :: "Product \<Rightarrow> ProductionLine \<Rightarrow> int \<Rightarrow> int" where
  "specDuration product line qty = (\<Sum>eqId \<leftarrow> equipmentIds line. perUnitMinutes product eqId) * qty"

text \<open>The half-open overlap rule of the conflict detector, in the claim's words.\<close>

definition overlaps :: "Date \<Rightarrow> Date \<Rightarrow> Date \<Rightarrow> Date \<Rightarrow> bool" where
  "overlaps candidateStart candidateEnd existingStart existingEnd =
     (candidateStart < existingEnd \<and> candidateEnd > existingStart)"

text \<open>The transition of one run on a tick, in the claim's words: a pending run whose
  interval holds the instant goes in progress, a run in progress whose end has come is
  completed, every other run stays as it is.\<close>

definition specTransition :: "Date \<Rightarrow> ScheduledProductionRun \<Rightarrow> ScheduledProductionRun" where
  "specTransition t r =
     (if status r = Pendente \<and> startTime r \<le> t \<and> t < endTime r then r\<lparr>status := EmProgresso\<rparr>
      else if status r = EmProgresso \<and> endTime r \<le> t then r\<lparr>status := Concluido\<rparr>
      else r)"

text \<open>Successive firings of the interval, each on the list the one before left.\<close>

definition clockTicks :: "Date list \<Rightarrow> ScheduledProductionRun list \<Rightarrow> ScheduledProductionRun list" where
  "clockTicks instants schedules = foldl (\<lambda>acc t. clockTick t acc) schedules instants"

section \<open>Example data\<close>

text \<open>Monday 1 January 2024, 00:00, and a time of that day.\<close>

definition monday :: Date where
  "monday = 1704067200000"

definition clock :: "int \<Rightarrow> int \<Rightarrow> Date" where
  "clock h m = 1704067200000 + h * 3600000 + m * 60000"

text \<open>Two products that take an hour per unit on the one equipment of line \<open>L\<close>, which
  works from 08:00 to 17:00 on Mondays.\<close>

definition normalProduct :: Product where
  "normalProduct = \<lparr>p_id = ''pn'', p_name = ''N'',
     processingTimes = [\<lparr>equipmentId = ''e1'', timePerUnitMinutes = 60\<rparr>],
     classification = Normal\<rparr>"

definition topProduct :: Product where
  "topProduct = \<lparr>p_id = ''pt'', p_name = ''T'',
     processingTimes = [\<lparr>equipmentId = ''e1'', timePerUnitMinutes = 60\<rparr>],
     classification = TopSeller\<rparr>"

definition lineL :: ProductionLine where
  "lineL = \<lparr>l_id = ''L'', l_name = ''Line'', equipmentIds = [''e1''],
     operatingHours = [\<lparr>dayOfWeek = 1, oh_startTime = ''08:00'', oh_endTime = ''17:00'',
                        isActive = True\<rparr>]\<rparr>"

definition runOn :: "string \<Rightarrow> string \<Rightarrow> Date \<Rightarrow> Date \<Rightarrow> int \<Rightarrow> ScheduleStatus \<Rightarrow> ScheduledProductionRun" where
  "runOn i p s e q st = \<lparr>s_id = i, productId = p, lineId = ''L'', startTime = s, endTime = e,
     quantity = q, s_notes = None, status = st\<rparr>"

section \<open>The placements of a line, as a list\<close>

text \<open>The runs that the loop over a line's runs to optimize appends to
  \<open>schedulesToUpdate\<close>, given the slots occupied at its start.\<close>

fun placeAll ::
  "Product list \<Rightarrow> ProductionLine \<Rightarrow> Date \<Rightarrow> bool \<Rightarrow> Date \<Rightarrow> ScheduledProductionRun list
     \<Rightarrow> ScheduledProductionRun list \<Rightarrow> ScheduledProductionRun list" where
  "placeAll products line targetDayStart isToday now slots [] = []"
| "placeAll products line targetDayStart isToday now slots (x # xs) =
     (case findPlacement products line targetDayStart isToday now slots x of
        None \<Rightarrow> placeAll products line targetDayStart isToday now slots xs
      | Some (a, b) \<Rightarrow>
          x\<lparr>startTime := a, endTime := b\<rparr>
            # placeAll products line targetDayStart isToday now
                (sort_key startTime (slots @ [x\<lparr>startTime := a, endTime := b\<rparr>])) xs)"

text \<open>The fixed runs and the runs to optimize of a line on the target day.\<close>

definition fixedOf :: "Product list \<Rightarrow> ScheduledProductionRun list \<Rightarrow> string \<Rightarrow> ScheduledProductionRun list" where
  "fixedOf products onDay lid =
     filter (\<lambda>s. \<not> isNormalPending products s) (filter (\<lambda>s. lineId s = lid) onDay)"

definition normalsOf :: "Product list \<Rightarrow> ScheduledProductionRun list \<Rightarrow> string \<Rightarrow> ScheduledProductionRun list" where
  "normalsOf products onDay lid =
     filter (isNormalPending products) (filter (\<lambda>s. lineId s = lid) onDay)"

definition linePlacements ::
  "Product list \<Rightarrow> ProductionLine list \<Rightarrow> ScheduledProductionRun list \<Rightarrow> Date \<Rightarrow> bool \<Rightarrow> Date
     \<Rightarrow> string \<Rightarrow> ScheduledProductionRun list" where
  "linePlacements products productionLines onDay targetDayStart isToday now lid =
     (case getProductionLineById productionLines lid of
        None \<Rightarrow> []
      | Some line \<Rightarrow>
          placeAll products line targetDayStart isToday now
            (sort_key startTime (fixedOf products onDay lid))
            (sort_key startTime (normalsOf products onDay lid)))"

text \<open>The two tests at the head of the search loop, taken together: the attempt and
  the end it gives both show the target day's day of the month, the attempt lies before
  the end of the operating hours and the end not after it.\<close>

definition slotAllowed :: "Date \<Rightarrow> int \<Rightarrow> int \<Rightarrow> Date \<Rightarrow> bool" where
  "slotAllowed targetDayStart lineOpEndMinutes durationMinutes a =
     (getDate a = getDate targetDayStart \<and> minutesOfDay a < lineOpEndMinutes
      \<and> getDate (a + durationMinutes * 60000) = getDate targetDayStart
      \<and> minutesOfDay (a + durationMinutes * 60000) \<le> lineOpEndMinutes)"

text \<open>The duration that the optimizer computes for a run (0 when its product is
  unknown), and the end of the operating hours with the search origin of a line (none
  when the line does not work on the target day).\<close>

definition durationOf :: "Product list \<Rightarrow> ProductionLine \<Rightarrow> ScheduledProductionRun \<Rightarrow> int" where
  "durationOf products line x =
     (case getProductById products (productId x) of
        None \<Rightarrow> 0
      | Some product \<Rightarrow> calculateProductDurationOnLine product line (quantity x))"

definition searchWindow :: "ProductionLine \<Rightarrow> Date \<Rightarrow> bool \<Rightarrow> Date \<Rightarrow> (int \<times> Date) option" where
  "searchWindow line targetDayStart isToday now =
     (case lineOpHoursForDay line (getDay targetDayStart) of
        None \<Rightarrow> None
      | Some oh \<Rightarrow>
          if \<not> isActive oh then None
          else Some (timeToMinutes (oh_endTime oh),
                     effectiveStartOfSearchWindow targetDayStart isToday now
                       (timeToMinutes (oh_startTime oh))))"

text \<open>Two runs overlap when their intervals do, by the half-open rule.\<close>

definition runsOverlap :: "ScheduledProductionRun \<Rightarrow> ScheduledProductionRun \<Rightarrow> bool" where
  "runsOverlap a b = overlaps (startTime a) (endTime a) (startTime b) (endTime b)"

text \<open>The record of a line's operating calendar for a weekday: the first one, should
  the calendar hold several for that weekday.\<close>

definition operatingWindowOn :: "ProductionLine \<Rightarrow> int \<Rightarrow> OperatingDayTime option" where
  "operatingWindowOn line weekday =
     (case filter (\<lambda>oh. dayOfWeek oh = weekday) (operatingHours line) of
        [] \<Rightarrow> None
      | oh # _ \<Rightarrow> Some oh)"

text \<open>The same line with operating hours from 08:00 to 10:00 on Mondays.\<close>

definition shortLine :: ProductionLine where
  "shortLine = \<lparr>l_id = ''L'', l_name = ''Line'', equipmentIds = [''e1''],
     operatingHours = [\<lparr>dayOfWeek = 1, oh_startTime = ''08:00'', oh_endTime = ''10:00'',
                        isActive = True\<rparr>]\<rparr>"

section \<open>Properties of the duration calculator\<close>

lemma find_map_of:
  "map_option timePerUnitMinutes (find (\<lambda>pt. equipmentId pt = e) pts)
     = map_of (map (\<lambda>pt. (equipmentId pt, timePerUnitMinutes pt)) pts) e"
  by (induction pts) auto

lemma perUnitMinutes_find:
  "(case productTimeForEq product e of Some pt \<Rightarrow> acc + timePerUnitMinutes pt | None \<Rightarrow> acc)
     = acc + perUnitMinutes product e"
  unfolding perUnitMinutes_def productTimeForEq_def find_map_of [symmetric]
  by (simp split: option.splits)

lemma foldl_add_sum_list:
  "foldl (\<lambda>acc e. acc + f e) a es = a + sum_list (map f es)" for a :: int
  by (induction es arbitrary: a) auto

lemma totalDurationForOneUnit_sum:
  "totalDurationForOneUnit product eqs = (\<Sum>e \<leftarrow> eqs. perUnitMinutes product e)"
  unfolding totalDurationForOneUnit_def perUnitMinutes_find
  by (simp add: foldl_add_sum_list)

lemma perUnitMinutes_empty: "processingTimes product = [] \<Longrightarrow> perUnitMinutes product e = 0"
  by (simp add: perUnitMinutes_def)

lemma perUnitMinutes_nonneg:
  assumes "\<forall>pt \<in> set (processingTimes product). 0 \<le> timePerUnitMinutes pt"
  shows "0 \<le> perUnitMinutes product e"
proof (cases "productTimeForEq product e")
  case None
  then show ?thesis
    unfolding perUnitMinutes_def productTimeForEq_def find_map_of [symmetric] by simp
next
  case (Some pt)
  then have "pt \<in> set (processingTimes product)"
    by (auto simp: productTimeForEq_def find_Some_iff)
  with assms Some show ?thesis
    unfolding perUnitMinutes_def productTimeForEq_def find_map_of [symmetric] by simp
qed

text \<open>
  Claim C4, as amended.  For a positive quantity the calculator returns the sum, over the
  equipment ids of the line, of the product's minutes per unit for that id (0 when
  absent), times the quantity; it returns 0 when the line has no equipment, the product
  has no profile or the quantity is not positive; and the result is not negative when no
  entry of the profile is negative.
\<close>

theorem C4_duration:
  "calculateProductDurationOnLine product line qty
     = (if qty \<le> 0 then 0 else specDuration product line qty)
   \<and> (equipmentIds line = [] \<or> processingTimes product = [] \<or> qty \<le> 0
        \<longrightarrow> calculateProductDurationOnLine product line qty = 0)
   \<and> ((\<forall>pt \<in> set (processingTimes product). 0 \<le> timePerUnitMinutes pt)
        \<longrightarrow> 0 \<le> calculateProductDurationOnLine product line qty)"
proof -
  have eq: "calculateProductDurationOnLine product line qty
     = (if qty \<le> 0 then 0 else specDuration product line qty)"
  proof -
    have "(\<Sum>e \<leftarrow> equipmentIds line. perUnitMinutes product e) = 0"
      if "processingTimes product = []"
    proof -
      have m: "map (perUnitMinutes product) (equipmentIds line) = map (\<lambda>_. 0) (equipmentIds line)"
        by (rule map_cong) (simp_all add: perUnitMinutes_empty [OF that])
      show ?thesis unfolding m by simp
    qed
    then show ?thesis
      by (auto simp: calculateProductDurationOnLine_def specDuration_def
          totalDurationForOneUnit_sum)
  qed
  have zero: "calculateProductDurationOnLine product line qty = 0"
    if "equipmentIds line = [] \<or> processingTimes product = [] \<or> qty \<le> 0"
    using that by (auto simp: calculateProductDurationOnLine_def)
  have nonneg: "0 \<le> calculateProductDurationOnLine product line qty"
    if "\<forall>pt \<in> set (processingTimes product). 0 \<le> timePerUnitMinutes pt"
  proof -
    have "0 \<le> (\<Sum>e \<leftarrow> equipmentIds line. perUnitMinutes product e)"
      by (rule sum_list_nonneg) (auto intro: perUnitMinutes_nonneg [OF that])
    then show ?thesis
      by (simp add: eq specDuration_def)
  qed
  from eq zero nonneg show ?thesis by blast
qed

theorem C4_duration_witness:
  "calculateProductDurationOnLine
     \<lparr>p_id = ''p'', p_name = ''P'',
      processingTimes = [\<lparr>equipmentId = ''e1'', timePerUnitMinutes = 3\<rparr>,
                         \<lparr>equipmentId = ''e3'', timePerUnitMinutes = 4\<rparr>],
      classification = Normal\<rparr>
     \<lparr>l_id = ''L'', l_name = ''L'', equipmentIds = [''e1'', ''e2'', ''e3''], operatingHours = []\<rparr> 5 = 35
   \<and> 0 \<le> calculateProductDurationOnLine
     \<lparr>p_id = ''p'', p_name = ''P'',
      processingTimes = [\<lparr>equipmentId = ''e1'', timePerUnitMinutes = 3\<rparr>,
                         \<lparr>equipmentId = ''e3'', timePerUnitMinutes = 4\<rparr>],
      classification = Normal\<rparr>
     \<lparr>l_id = ''L'', l_name = ''L'', equipmentIds = [''e1'', ''e2'', ''e3''], operatingHours = []\<rparr> 5"
  using C4_duration [of
     "\<lparr>p_id = ''p'', p_name = ''P'',
      processingTimes = [\<lparr>equipmentId = ''e1'', timePerUnitMinutes = 3\<rparr>,
                         \<lparr>equipmentId = ''e3'', timePerUnitMinutes = 4\<rparr>],
      classification = Normal\<rparr>"
     "\<lparr>l_id = ''L'', l_name = ''L'', equipmentIds = [''e1'', ''e2'', ''e3''], operatingHours = []\<rparr>" 5]
  by (simp add: specDuration_def perUnitMinutes_def)

text \<open>A profile entry below zero gives a duration below zero: the result is not
  always non-negative.\<close>

theorem C4_negative_counterexample:
  "calculateProductDurationOnLine
     \<lparr>p_id = ''p'', p_name = ''P'',
      processingTimes = [\<lparr>equipmentId = ''e1'', timePerUnitMinutes = - 5\<rparr>],
      classification = Normal\<rparr>
     \<lparr>l_id = ''L'', l_name = ''L'', equipmentIds = [''e1''], operatingHours = []\<rparr> 2 < 0"
  by (simp add: calculateProductDurationOnLine_def totalDurationForOneUnit_def productTimeForEq_def)

section \<open>Both collision tests are the half-open rule\<close>

lemma collidingSlot_None_iff:
  "collidingSlot ps pe slots = None
     \<longleftrightarrow> (\<forall>e \<in> set slots. \<not> (ps < endTime e \<and> pe > startTime e))"
  by (auto simp: collidingSlot_def find_None_iff)

lemma conflictMessage_None_iff:
  "conflictMessage products ns ne others = None
     \<longleftrightarrow> (\<forall>e \<in> set others. getProductById products (productId e) \<noteq> None
            \<longrightarrow> \<not> (ns < endTime e \<and> ne > startTime e))"
  by (induction others) (auto split: option.splits)

text \<open>
  Claim C5, as amended.  The collision scan of the optimizer finds an item exactly when
  the proposed interval overlaps one of the occupied slots by the half-open rule.  The
  validator's loop reports a conflict exactly when the new interval overlaps, by the same
  rule, one of the runs whose product is known: a run whose product is unknown is passed
  over, whether the new interval overlaps it or not.  A run that ends where the candidate
  starts, or starts where the candidate ends, is a conflict for neither.
\<close>

theorem C5_half_open_overlap:
  "(collidingSlot ps pe slots \<noteq> None)
      = (\<exists>e \<in> set slots. overlaps ps pe (startTime e) (endTime e))
   \<and> (conflictMessage products ps pe others \<noteq> None)
      = (\<exists>e \<in> set others. getProductById products (productId e) \<noteq> None
                            \<and> overlaps ps pe (startTime e) (endTime e))
   \<and> (endTime e = ps \<or> startTime e = pe
        \<longrightarrow> collidingSlot ps pe [e] = None \<and> conflictMessage products ps pe [e] = None)"
proof -
  have a: "(collidingSlot ps pe slots \<noteq> None)
      = (\<exists>e \<in> set slots. overlaps ps pe (startTime e) (endTime e))"
    by (simp add: collidingSlot_None_iff overlaps_def)
  have b: "(conflictMessage products ps pe others \<noteq> None)
      = (\<exists>e \<in> set others. getProductById products (productId e) \<noteq> None
                            \<and> overlaps ps pe (startTime e) (endTime e))"
    by (simp add: conflictMessage_None_iff overlaps_def)
  have c: "collidingSlot ps pe [e] = None \<and> conflictMessage products ps pe [e] = None"
    if "endTime e = ps \<or> startTime e = pe"
    using that by (auto simp: collidingSlot_None_iff split: option.splits)
  from a b c show ?thesis by blast
qed

text \<open>A run of a known product from 09:00 to 10:00 and a candidate from 10:00 to 12:00: no
  conflict on either path.  The same run a minute longer: a conflict on both.\<close>

theorem C5_half_open_overlap_witness:
  "collidingSlot (clock 10 0) (clock 12 0) [runOn ''x'' ''pt'' (clock 9 0) (clock 10 0) 1 Pendente]
      = None
   \<and> conflictMessage [normalProduct, topProduct] (clock 10 0) (clock 12 0)
        [runOn ''x'' ''pt'' (clock 9 0) (clock 10 0) 1 Pendente] = None
   \<and> collidingSlot (clock 10 0) (clock 12 0) [runOn ''x'' ''pt'' (clock 9 0) (clock 10 1) 1 Pendente]
      \<noteq> None
   \<and> conflictMessage [normalProduct, topProduct] (clock 10 0) (clock 12 0)
        [runOn ''x'' ''pt'' (clock 9 0) (clock 10 1) 1 Pendente] \<noteq> None"
proof -
  let ?P = "[normalProduct, topProduct]"
  let ?touching = "runOn ''x'' ''pt'' (clock 9 0) (clock 10 0) 1 Pendente"
  let ?longer = "runOn ''x'' ''pt'' (clock 9 0) (clock 10 1) 1 Pendente"
  have touch: "endTime ?touching = clock 10 0"
    by code_simp
  have known: "\<exists>e \<in> set [?longer]. getProductById ?P (productId e) \<noteq> None
      \<and> overlaps (clock 10 0) (clock 12 0) (startTime e) (endTime e)"
    by code_simp
  then have over: "\<exists>e \<in> set [?longer]. overlaps (clock 10 0) (clock 12 0) (startTime e) (endTime e)"
    by blast
  from C5_half_open_overlap [where ps = "clock 10 0" and pe = "clock 12 0" and e = ?touching
      and products = ?P] touch
  have "collidingSlot (clock 10 0) (clock 12 0) [?touching] = None
      \<and> conflictMessage ?P (clock 10 0) (clock 12 0) [?touching] = None"
    by blast
  moreover
  from C5_half_open_overlap [where ps = "clock 10 0" and pe = "clock 12 0" and slots = "[?longer]"
      and others = "[?longer]" and products = ?P] known over
  have "collidingSlot (clock 10 0) (clock 12 0) [?longer] \<noteq> None
      \<and> conflictMessage ?P (clock 10 0) (clock 12 0) [?longer] \<noteq> None"
    by blast
  ultimately show ?thesis by blast
qed

text \<open>A run from 09:00 to 10:00 whose product is not among the products, and a candidate
  from 09:00 to 10:00: the half-open rule holds and the optimizer's scan finds the run,
  the validator's loop reports no conflict, and the validator accepts the drop at 09:00 of
  a pending Normal run of one hour.\<close>

theorem C5_run_of_unknown_product_counterexample:
  "overlaps (clock 9 0) (clock 10 0)
      (startTime (runOn ''u'' ''gone'' (clock 9 0) (clock 10 0) 1 Pendente))
      (endTime (runOn ''u'' ''gone'' (clock 9 0) (clock 10 0) 1 Pendente))
   \<and> collidingSlot (clock 9 0) (clock 10 0) [runOn ''u'' ''gone'' (clock 9 0) (clock 10 0) 1 Pendente]
       = Some (runOn ''u'' ''gone'' (clock 9 0) (clock 10 0) 1 Pendente)
   \<and> conflictMessage [normalProduct, topProduct] (clock 9 0) (clock 10 0)
       [runOn ''u'' ''gone'' (clock 9 0) (clock 10 0) 1 Pendente] = None
   \<and> checkDropValidity [normalProduct, topProduct] [lineL]
       [runOn ''u'' ''gone'' (clock 9 0) (clock 10 0) 1 Pendente,
        runOn ''b'' ''pn'' (clock 8 0) (clock 9 0) 1 Pendente] monday 0 0
       (runOn ''b'' ''pn'' (clock 8 0) (clock 9 0) 1 Pendente) ''L'' (clock 9 0)
     = \<lparr>valid = True, message = None\<rparr>"
  by code_simp

section \<open>The status clock\<close>

lemma mset_updateScheduleOp:
  "mset (updateScheduleOp u xs) = image_mset (\<lambda>s. if s_id s = s_id u then u else s) (mset xs)"
  by (simp add: updateScheduleOp_def)

lemma mset_foldl_updateScheduleOp:
  "mset (foldl (\<lambda>acc u. updateScheduleOp u acc) xs us)
     = image_mset (\<lambda>s. foldl (\<lambda>s u. if s_id s = s_id u then u else s) s us) (mset xs)"
proof (induction us arbitrary: xs)
  case Nil
  show ?case by simp
next
  case (Cons u us)
  show ?case
    by (simp add: Cons.IH mset_updateScheduleOp multiset.map_comp comp_def)
qed

lemma s_id_specTransition [simp]: "s_id (specTransition t r) = s_id r"
  by (simp add: specTransition_def)

lemma clockUpdates_Cons:
  "clockUpdates t (a # ss)
     = (if specTransition t a \<noteq> a then [specTransition t a] else []) @ clockUpdates t ss"
proof -
  have "(status a \<noteq> Cancelado \<and> status a \<noteq> Concluido \<and> newStatus t a \<noteq> status a)
          = (specTransition t a \<noteq> a)"
    by (cases "status a")
      (auto simp: newStatus_def specTransition_def dest: arg_cong [where f = status])
  moreover have "specTransition t a \<noteq> a \<Longrightarrow> a\<lparr>status := newStatus t a\<rparr> = specTransition t a"
    by (auto simp: newStatus_def specTransition_def split: if_splits)
  ultimately show ?thesis
    by (simp add: clockUpdates_def)
qed

lemma clockUpdates_Nil [simp]: "clockUpdates t [] = []"
  by (simp add: clockUpdates_def)

lemma foldl_replace_other:
  "s_id x \<notin> s_id ` set ss
     \<Longrightarrow> foldl (\<lambda>s u. if s_id s = s_id u then u else s) x (clockUpdates t ss) = x"
  by (induction ss) (auto simp: clockUpdates_Cons)

lemma foldl_replace_own:
  "distinct (map s_id ss) \<Longrightarrow> r \<in> set ss
     \<Longrightarrow> foldl (\<lambda>s u. if s_id s = s_id u then u else s) r (clockUpdates t ss)
           = specTransition t r"
proof (induction ss)
  case Nil
  then show ?case by simp
next
  case (Cons a ss)
  show ?case
  proof (cases "r = a")
    case True
    have "s_id (specTransition t a) \<notin> s_id ` set ss"
      using Cons.prems(1) by simp
    from foldl_replace_other [OF this] have
      "foldl (\<lambda>s u. if s_id s = s_id u then u else s) (specTransition t a) (clockUpdates t ss)
         = specTransition t a" .
    moreover have "s_id a \<notin> s_id ` set ss"
      using Cons.prems(1) by simp
    from foldl_replace_other [OF this] have
      "foldl (\<lambda>s u. if s_id s = s_id u then u else s) a (clockUpdates t ss) = a" .
    ultimately show ?thesis
      using True by (simp add: clockUpdates_Cons)
  next
    case False
    with Cons.prems have mem: "r \<in> set ss" and ne: "s_id r \<noteq> s_id a"
      by (auto simp: image_iff)
    from Cons.IH [OF _ mem] Cons.prems(1) have
      "foldl (\<lambda>s u. if s_id s = s_id u then u else s) r (clockUpdates t ss) = specTransition t r"
      by simp
    then show ?thesis
      using ne by (simp add: clockUpdates_Cons)
  qed
qed

lemma mset_clockTick:
  assumes "distinct (map s_id schedules)"
  shows "mset (clockTick t schedules) = image_mset (specTransition t) (mset schedules)"
  unfolding clockTick_def mset_foldl_updateScheduleOp
  by (rule image_mset_cong) (simp add: foldl_replace_own [OF assms])

lemma set_clockUpdates:
  "set (clockUpdates t schedules)
     = {specTransition t r | r. r \<in> set schedules \<and> specTransition t r \<noteq> r}"
  by (induction schedules) (auto simp: clockUpdates_Cons)

text \<open>
  Claim C8.  With run ids that are distinct, a tick leaves the list holding exactly the
  runs it held, each one transitioned as the claim says: pending to in progress when the
  instant lies in the run's interval, in progress to completed when the end has come, and
  unchanged otherwise, so a cancelled or completed run is never modified.  The rows
  written to the store are exactly the transitioned runs.
\<close>

theorem C8_status_clock:
  assumes "distinct (map s_id schedules)"
  shows "mset (clockTick t schedules) = mset (map (specTransition t) schedules)
       \<and> set (clockUpdates t schedules)
           = {specTransition t r | r. r \<in> set schedules \<and> specTransition t r \<noteq> r}"
  using mset_clockTick [OF assms] set_clockUpdates by simp

lemma distinct_clockTick:
  assumes "distinct (map s_id schedules)"
  shows "distinct (map s_id (clockTick t schedules))"
proof -
  have "mset (map s_id (clockTick t schedules)) = mset (map s_id schedules)"
    by (simp add: mset_clockTick [OF assms] multiset.map_comp comp_def)
  then show ?thesis
    using assms mset_eq_imp_distinct_iff by blast
qed

lemma pending_elapsed_fixed:
  "status r = Pendente \<Longrightarrow> endTime r \<le> t \<Longrightarrow> specTransition t r = r"
  by (simp add: specTransition_def)

lemma pending_elapsed_stays:
  assumes "distinct (map s_id schedules)" "r \<in> set schedules"
    "status r = Pendente" "endTime r \<le> t"
  shows "r \<in> set (clockTick t schedules)"
proof -
  have "set (clockTick t schedules) = specTransition t ` set schedules"
    using mset_clockTick [OF assms(1), of t]
    by (metis set_image_mset set_mset_mset)
  moreover have "specTransition t r = r"
    using assms(3,4) by (rule pending_elapsed_fixed)
  ultimately show ?thesis
    using assms(2) by force
qed

text \<open>
  Claim C10.  A pending run whose end lies at or before the instant of a tick is still in
  the list, unchanged and pending, after that tick and after any number of later ticks:
  the clock never takes a run from pending to completed.
\<close>

theorem C10_pending_never_completed:
  assumes "distinct (map s_id schedules)" and "r \<in> set schedules"
    and "status r = Pendente" and "endTime r \<le> t0"
    and "\<forall>t \<in> set instants. t0 \<le> t"
  shows "r \<in> set (clockTicks instants schedules)
       \<and> (\<forall>t \<in> set instants. newStatus t r = Pendente)"
proof -
  have "r \<in> set (clockTicks instants schedules)"
    using assms(1,2,5)
  proof (induction instants arbitrary: schedules)
    case Nil
    then show ?case by (simp add: clockTicks_def)
  next
    case (Cons t instants)
    have le: "endTime r \<le> t"
      using Cons.prems(3) assms(4) by auto
    have d: "distinct (map s_id (clockTick t schedules))"
      by (rule distinct_clockTick [OF Cons.prems(1)])
    have m: "r \<in> set (clockTick t schedules)"
      by (rule pending_elapsed_stays [OF Cons.prems(1,2) assms(3) le])
    have "r \<in> set (clockTicks instants (clockTick t schedules))"
      using Cons.IH [OF d m] Cons.prems(3) by simp
    then show ?case by (simp add: clockTicks_def)
  qed
  moreover have "\<forall>t \<in> set instants. newStatus t r = Pendente"
    using assms(3,4,5) by (auto simp: newStatus_def)
  ultimately show ?thesis by simp
qed

theorem C8_status_clock_witness:
  "distinct (map s_id [runOn ''a'' ''pn'' 100 200 1 Pendente, runOn ''b'' ''pn'' 0 50 1 EmProgresso,
                       runOn ''c'' ''pn'' 100 200 1 Cancelado])
   \<and> mset (clockTick 150 [runOn ''a'' ''pn'' 100 200 1 Pendente, runOn ''b'' ''pn'' 0 50 1 EmProgresso,
                            runOn ''c'' ''pn'' 100 200 1 Cancelado])
       = mset [runOn ''a'' ''pn'' 100 200 1 EmProgresso, runOn ''b'' ''pn'' 0 50 1 Concluido,
               runOn ''c'' ''pn'' 100 200 1 Cancelado]"
  using C8_status_clock [of "[runOn ''a'' ''pn'' 100 200 1 Pendente, runOn ''b'' ''pn'' 0 50 1 EmProgresso,
                       runOn ''c'' ''pn'' 100 200 1 Cancelado]" 150]
  by (simp add: specTransition_def runOn_def)

theorem C10_pending_never_completed_witness:
  "runOn ''a'' ''pn'' 100 200 1 Pendente
      \<in> set (clockTicks [200, 260] [runOn ''a'' ''pn'' 100 200 1 Pendente,
                                     runOn ''b'' ''pn'' 0 50 1 EmProgresso])
   \<and> newStatus 200 (runOn ''a'' ''pn'' 100 200 1 Pendente) = Pendente
   \<and> newStatus 260 (runOn ''a'' ''pn'' 100 200 1 Pendente) = Pendente"
  using C10_pending_never_completed [of "[runOn ''a'' ''pn'' 100 200 1 Pendente,
                                     runOn ''b'' ''pn'' 0 50 1 EmProgresso]"
      "runOn ''a'' ''pn'' 100 200 1 Pendente" 200 "[200, 260]"]
  by (simp add: runOn_def)


section \<open>The optimizer's placements are the placements of its lines\<close>

lemma uniq_aux:
  "set (foldl (\<lambda>acc x. if x \<in> set acc then acc else acc @ [x]) acc xs) = set acc \<union> set xs
   \<and> (distinct acc \<longrightarrow> distinct (foldl (\<lambda>acc x. if x \<in> set acc then acc else acc @ [x]) acc xs))"
  by (induction xs arbitrary: acc) auto

lemma set_uniq [simp]: "set (uniq xs) = set xs"
  using uniq_aux [of "[]" xs] by (simp add: uniq_def)

lemma distinct_uniq [simp]: "distinct (uniq xs)"
  using uniq_aux [of "[]" xs] by (simp add: uniq_def)

lemma partitionStep_fields:
  "fixedSchedulesOnThisLine (partitionStep products acc x)
     = fixedSchedulesOnThisLine acc @ (if isNormalPending products x then [] else [x])"
  "normalPendingSchedulesForOptimization (partitionStep products acc x)
     = normalPendingSchedulesForOptimization acc @ (if isNormalPending products x then [x] else [])"
  by (cases "classificationOf products x"; cases "status x";
      simp add: partitionStep_def isNormalPending_def)+

lemma partition_foldl:
  "fixedSchedulesOnThisLine (foldl (partitionStep products) acc xs)
      = fixedSchedulesOnThisLine acc @ filter (\<lambda>s. \<not> isNormalPending products s) xs
   \<and> normalPendingSchedulesForOptimization (foldl (partitionStep products) acc xs)
      = normalPendingSchedulesForOptimization acc @ filter (isNormalPending products) xs"
  by (induction xs arbitrary: acc) (simp_all add: partitionStep_fields)

lemma fixed_partitionSchedules:
  "fixedSchedulesOnThisLine (partitionSchedules products xs)
     = filter (\<lambda>s. \<not> isNormalPending products s) xs"
  by (simp add: partitionSchedules_def partition_foldl)

lemma normals_partitionSchedules:
  "normalPendingSchedulesForOptimization (partitionSchedules products xs)
     = filter (isNormalPending products) xs"
  by (simp add: partitionSchedules_def partition_foldl)

lemma placeStep_fields:
  "schedulesToUpdate (placeStep products line t isToday now st x)
     = schedulesToUpdate st
        @ (case findPlacement products line t isToday now (currentAvailableSlots st) x of
             None \<Rightarrow> [] | Some (a, b) \<Rightarrow> [x\<lparr>startTime := a, endTime := b\<rparr>])"
  "currentAvailableSlots (placeStep products line t isToday now st x)
     = (case findPlacement products line t isToday now (currentAvailableSlots st) x of
          None \<Rightarrow> currentAvailableSlots st
        | Some (a, b) \<Rightarrow>
            sort_key startTime (currentAvailableSlots st @ [x\<lparr>startTime := a, endTime := b\<rparr>]))"
  "optimizedCount (placeStep products line t isToday now st x)
     = optimizedCount st
        + (case findPlacement products line t isToday now (currentAvailableSlots st) x of
             None \<Rightarrow> 0 | Some _ \<Rightarrow> 1)"
  by (simp_all add: placeStep_def split: option.splits prod.splits)

lemma foldl_placeStep:
  "schedulesToUpdate (foldl (placeStep products line t isToday now) st xs)
      = schedulesToUpdate st @ placeAll products line t isToday now (currentAvailableSlots st) xs
   \<and> optimizedCount (foldl (placeStep products line t isToday now) st xs)
      = optimizedCount st + length (placeAll products line t isToday now (currentAvailableSlots st) xs)"
  by (induction xs arbitrary: st) (auto simp: placeStep_fields split: option.splits)

lemma processLine_placements:
  "schedulesToUpdate (processLine products productionLines onDay t isToday now st lid)
      = schedulesToUpdate st @ linePlacements products productionLines onDay t isToday now lid
   \<and> optimizedCount (processLine products productionLines onDay t isToday now st lid)
      = optimizedCount st + length (linePlacements products productionLines onDay t isToday now lid)"
  by (cases "getProductionLineById productionLines lid")
    (simp_all add: processLine_def linePlacements_def foldl_placeStep
      fixed_partitionSchedules normals_partitionSchedules fixedOf_def normalsOf_def)

lemma foldl_processLine:
  "schedulesToUpdate (foldl (processLine products productionLines onDay t isToday now) st lids)
      = schedulesToUpdate st
          @ concat (map (linePlacements products productionLines onDay t isToday now) lids)
   \<and> optimizedCount (foldl (processLine products productionLines onDay t isToday now) st lids)
      = optimizedCount st
          + length (concat (map (linePlacements products productionLines onDay t isToday now) lids))"
proof (induction lids arbitrary: st)
  case Nil
  show ?case by simp
next
  case (Cons lid lids)
  show ?case
    by (simp add: Cons.IH processLine_placements)
qed

lemma optimize_placements:
  "schedulesToUpdate (optimizeDaySchedulesOp products productionLines schedules now d)
     = concat (map (linePlacements products productionLines
                      (schedulesStartingOnTargetDay schedules (setHours d 0 0)) (setHours d 0 0)
                      (sameCalendarDay (setHours d 0 0) now) now)
                (uniq (map lineId (schedulesStartingOnTargetDay schedules (setHours d 0 0)))))"
  by (simp add: optimizeDaySchedulesOp_def foldl_processLine)

lemma optimize_count:
  "optimizedCount (optimizeDaySchedulesOp products productionLines schedules now d)
     = length (schedulesToUpdate (optimizeDaySchedulesOp products productionLines schedules now d))"
  by (simp add: optimizeDaySchedulesOp_def foldl_processLine)

section \<open>The search for a slot\<close>

lemma searchSlot_unfold:
  "searchSlot t oe d eff slots a =
     (if \<not> slotAllowed t oe d a then None
      else (case collidingSlot a (a + d * 60000) slots of
              Some e \<Rightarrow> searchSlot t oe d eff slots (max (endTime e) eff)
            | None \<Rightarrow> Some (a, a + d * 60000)))"
  by (subst searchSlot.simps) (auto simp: slotAllowed_def)

declare searchSlot.simps [simp del]

lemma collidingSlot_SomeD:
  "collidingSlot a b slots = Some e \<Longrightarrow> e \<in> set slots \<and> a < endTime e \<and> startTime e < b"
  by (auto simp: collidingSlot_def find_Some_iff)

lemma runsOverlap_sym: "runsOverlap a b = runsOverlap b a"
  by (auto simp: runsOverlap_def overlaps_def)

lemma collidingSlot_None_runs:
  "collidingSlot (startTime u) (endTime u) slots = None \<longleftrightarrow> (\<forall>e \<in> set slots. \<not> runsOverlap u e)"
  by (auto simp: collidingSlot_None_iff runsOverlap_def overlaps_def)

lemma searchSlot_Some_basic:
  "searchSlot t oe d eff slots a = Some (p, q)
     \<Longrightarrow> q = p + d * 60000 \<and> slotAllowed t oe d p \<and> collidingSlot p q slots = None"
proof (induction t oe d eff slots a rule: searchSlot.induct)
  case (1 t oe d eff slots a)
  show ?case
  proof (cases "collidingSlot a (a + d * 60000) slots")
    case None
    with "1.prems" show ?thesis
      by (subst (asm) searchSlot_unfold) (auto split: if_splits)
  next
    case (Some e)
    from "1.prems" have al: "slotAllowed t oe d a"
      by (subst (asm) searchSlot_unfold) (auto split: if_splits)
    with "1.prems" Some have rec: "searchSlot t oe d eff slots (max (endTime e) eff) = Some (p, q)"
      by (subst (asm) searchSlot_unfold) simp
    from al have g1: "\<not> (getDate a \<noteq> getDate t \<or> oe \<le> minutesOfDay a)"
      and g2: "\<not> ((getDate (a + d * 60000) \<noteq> getDate t \<or> oe < minutesOfDay (a + d * 60000))
             \<and> \<not> (getDate (a + d * 60000) = getDate t \<and> minutesOfDay (a + d * 60000) = oe))"
      by (auto simp: slotAllowed_def)
    from "1.IH" [OF g1 g2 Some rec] show ?thesis .
  qed
qed


lemma searchSlot_attempts [case_names attempt]:
  assumes "\<And>a. (\<And>e. slotAllowed t oe d a \<Longrightarrow> collidingSlot a (a + d * 60000) slots = Some e
                    \<Longrightarrow> P (max (endTime e) eff)) \<Longrightarrow> P a"
  shows "P a"
  using assms
proof (induction t oe d eff slots a rule: searchSlot.induct)
  case (1 t oe d eff slots a)
  show ?case
  proof (rule "1.prems")
    fix e
    assume al: "slotAllowed t oe d a" and col: "collidingSlot a (a + d * 60000) slots = Some e"
    from al have g1: "\<not> (getDate a \<noteq> getDate t \<or> oe \<le> minutesOfDay a)"
      and g2: "\<not> ((getDate (a + d * 60000) \<noteq> getDate t \<or> oe < minutesOfDay (a + d * 60000))
             \<and> \<not> (getDate (a + d * 60000) = getDate t \<and> minutesOfDay (a + d * 60000) = oe))"
      by (auto simp: slotAllowed_def)
    from "1.IH" [OF g1 g2 col "1.prems"] show "P (max (endTime e) eff)" .
  qed
qed

text \<open>Every start between the attempt and the slot found collides with an occupied
  slot: the search skips no free slot.\<close>

lemma searchSlot_Some_earliest:
  "searchSlot t oe d eff slots a = Some (p, q) \<Longrightarrow> eff \<le> a
     \<Longrightarrow> a \<le> p \<and> (\<forall>b. a \<le> b \<and> b < p \<longrightarrow> collidingSlot b (b + d * 60000) slots \<noteq> None)"
proof (induction a rule: searchSlot_attempts [of t oe d slots _ eff])
  case (attempt a)
  show ?case
  proof (cases "collidingSlot a (a + d * 60000) slots")
    case None
    with attempt.prems show ?thesis
      by (subst (asm) searchSlot_unfold) (auto split: if_splits)
  next
    case (Some e)
    from attempt.prems have al: "slotAllowed t oe d a"
      by (subst (asm) searchSlot_unfold) (auto split: if_splits)
    with attempt.prems Some have rec: "searchSlot t oe d eff slots (max (endTime e) eff) = Some (p, q)"
      by (subst (asm) searchSlot_unfold) simp
    from collidingSlot_SomeD [OF Some] have mem: "e \<in> set slots"
      and lt: "a < endTime e" and st: "startTime e < a + d * 60000"
      by auto
    have a': "max (endTime e) eff = endTime e"
      using lt attempt.prems(2) by simp
    have "eff \<le> max (endTime e) eff" by simp
    from attempt.IH [OF al Some rec this] have le: "endTime e \<le> p"
      and later: "\<forall>b. endTime e \<le> b \<and> b < p \<longrightarrow> collidingSlot b (b + d * 60000) slots \<noteq> None"
      by (simp_all add: a')
    have "collidingSlot b (b + d * 60000) slots \<noteq> None" if "a \<le> b" "b < p" for b
    proof (cases "endTime e \<le> b")
      case True
      with later that show ?thesis by simp
    next
      case False
      with that st mem show ?thesis
        by (auto simp: collidingSlot_None_iff intro!: bexI [of _ e])
    qed
    with le lt show ?thesis by auto
  qed
qed

text \<open>Conversely, when every start from the attempt up to \<open>p\<close> passes the tests of the
  loop head, every start before \<open>p\<close> collides and \<open>p\<close> does not, the search returns \<open>p\<close>,
  whatever the order of the slots.\<close>

lemma searchSlot_finds:
  "eff \<le> a \<Longrightarrow> a \<le> p \<Longrightarrow> (\<forall>b. a \<le> b \<and> b \<le> p \<longrightarrow> slotAllowed t oe d b)
     \<Longrightarrow> collidingSlot p (p + d * 60000) slots = None
     \<Longrightarrow> (\<forall>b. a \<le> b \<and> b < p \<longrightarrow> collidingSlot b (b + d * 60000) slots \<noteq> None)
     \<Longrightarrow> searchSlot t oe d eff slots a = Some (p, p + d * 60000)"
proof (induction a rule: searchSlot_attempts [of t oe d slots _ eff])
  case (attempt a)
  have al: "slotAllowed t oe d a"
    using attempt.prems(2,3) by simp
  show ?case
  proof (cases "a = p")
    case True
    with al attempt.prems(4) show ?thesis
      by (subst searchSlot_unfold) simp
  next
    case False
    with attempt.prems(2) have lt: "a < p" by simp
    with attempt.prems(5) obtain e where col: "collidingSlot a (a + d * 60000) slots = Some e"
      by auto
    from collidingSlot_SomeD [OF col] have mem: "e \<in> set slots"
      and ae: "a < endTime e" and st: "startTime e < a + d * 60000"
      by auto
    have a': "max (endTime e) eff = endTime e"
      using ae attempt.prems(1) by simp
    have ep: "endTime e \<le> p"
    proof (rule ccontr)
      assume "\<not> endTime e \<le> p"
      with st lt mem have "collidingSlot p (p + d * 60000) slots \<noteq> None"
        by (auto simp: collidingSlot_None_iff intro!: bexI [of _ e])
      with attempt.prems(4) show False by simp
    qed
    have "searchSlot t oe d eff slots (max (endTime e) eff) = Some (p, p + d * 60000)"
    proof (rule attempt.IH [OF al col])
      show "eff \<le> max (endTime e) eff" by simp
      show "max (endTime e) eff \<le> p" using ep a' by simp
      show "\<forall>b. max (endTime e) eff \<le> b \<and> b \<le> p \<longrightarrow> slotAllowed t oe d b"
        using attempt.prems(3) ae a' by auto
      show "collidingSlot p (p + d * 60000) slots = None" by (rule attempt.prems(4))
      show "\<forall>b. max (endTime e) eff \<le> b \<and> b < p \<longrightarrow> collidingSlot b (b + d * 60000) slots \<noteq> None"
        using attempt.prems(5) ae a' by auto
    qed
    with al col show ?thesis
      by (subst searchSlot_unfold) simp
  qed
qed

lemma findPlacement_alt:
  "findPlacement products line t isToday now slots x =
     (if durationOf products line x \<le> 0 then None
      else (case searchWindow line t isToday now of
              None \<Rightarrow> None
            | Some (oe, eff) \<Rightarrow> searchFrom t oe (durationOf products line x) slots eff))"
  by (auto simp: findPlacement_def durationOf_def searchWindow_def split: option.splits)

lemma durationOf_moved [simp]:
  "durationOf products line (x\<lparr>startTime := a, endTime := b\<rparr>) = durationOf products line x"
  by (simp add: durationOf_def split: option.splits)

lemma findPlacement_SomeD:
  assumes "findPlacement products line t isToday now slots x = Some (p, q)"
  obtains oe eff where "searchWindow line t isToday now = Some (oe, eff)"
    and "0 < durationOf products line x"
    and "minutesOfDay eff < oe"
    and "searchSlot t oe (durationOf products line x) eff slots eff = Some (p, q)"
  using assms
  by (auto simp: findPlacement_alt searchFrom_def split: if_splits option.splits)

section \<open>What the optimizer places, and where\<close>

lemma placeAll_origin:
  "u \<in> set (placeAll products line t isToday now slots xs)
     \<Longrightarrow> \<exists>x \<in> set xs. u = x\<lparr>startTime := startTime u, endTime := endTime u\<rparr>"
proof (induction xs arbitrary: slots)
  case Nil
  then show ?case by simp
next
  case (Cons x xs)
  show ?case
  proof (cases "findPlacement products line t isToday now slots x")
    case None
    with Cons show ?thesis by auto
  next
    case (Some ab)
    obtain a b where ab: "ab = (a, b)" by (cases ab)
    from Cons.prems Some ab consider "u = x\<lparr>startTime := a, endTime := b\<rparr>"
      | "u \<in> set (placeAll products line t isToday now
                     (sort_key startTime (slots @ [x\<lparr>startTime := a, endTime := b\<rparr>])) xs)"
      by auto
    then show ?thesis
    proof cases
      case 1
      then show ?thesis by simp
    next
      case 2
      from Cons.IH [OF 2] show ?thesis by auto
    qed
  qed
qed

lemma placeAll_free:
  "sorted_wrt (\<lambda>a b. \<not> runsOverlap a b) (placeAll products line t isToday now slots xs)
   \<and> (\<forall>u \<in> set (placeAll products line t isToday now slots xs). \<forall>e \<in> set slots. \<not> runsOverlap u e)"
proof (induction xs arbitrary: slots)
  case Nil
  show ?case by simp
next
  case (Cons x xs)
  show ?case
  proof (cases "findPlacement products line t isToday now slots x")
    case None
    with Cons.IH [of slots] show ?thesis by simp
  next
    case (Some ab)
    obtain a b where ab: "ab = (a, b)" by (cases ab)
    let ?u = "x\<lparr>startTime := a, endTime := b\<rparr>"
    let ?slots = "sort_key startTime (slots @ [?u])"
    from Some ab obtain oe eff
      where "searchSlot t oe (durationOf products line x) eff slots eff = Some (a, b)"
      by (auto elim: findPlacement_SomeD)
    from searchSlot_Some_basic [OF this] have "collidingSlot a b slots = None"
      by blast
    then have free: "\<forall>e \<in> set slots. \<not> runsOverlap ?u e"
      using collidingSlot_None_runs [of ?u slots] by simp
    from Cons.IH [of ?slots]
    have sw: "sorted_wrt (\<lambda>a b. \<not> runsOverlap a b) (placeAll products line t isToday now ?slots xs)"
      and rest: "\<forall>v \<in> set (placeAll products line t isToday now ?slots xs).
                   \<forall>e \<in> set slots \<union> {?u}. \<not> runsOverlap v e"
      by auto
    from rest have "\<forall>v \<in> set (placeAll products line t isToday now ?slots xs). \<not> runsOverlap ?u v"
      using runsOverlap_sym by blast
    with sw rest free show ?thesis
      using Some ab by simp
  qed
qed

lemma isNormalPending_moved [simp]:
  "isNormalPending products (x\<lparr>startTime := a, endTime := b\<rparr>) = isNormalPending products x"
  by (simp add: isNormalPending_def classificationOf_def)

lemma linePlacements_origin:
  assumes "u \<in> set (linePlacements products productionLines onDay t isToday now lid)"
  shows "\<exists>x \<in> set onDay. u = x\<lparr>startTime := startTime u, endTime := endTime u\<rparr>
           \<and> lineId x = lid \<and> isNormalPending products x"
proof -
  from assms obtain line where
    "u \<in> set (placeAll products line t isToday now (sort_key startTime (fixedOf products onDay lid))
                 (sort_key startTime (normalsOf products onDay lid)))"
    by (auto simp: linePlacements_def split: option.splits)
  from placeAll_origin [OF this] show ?thesis
    by (auto simp: normalsOf_def)
qed

lemma linePlacements_lineId:
  assumes "u \<in> set (linePlacements products productionLines onDay t isToday now lid)"
  shows "lineId u = lid"
proof -
  from linePlacements_origin [OF assms] obtain x
    where eq: "u = x\<lparr>startTime := startTime u, endTime := endTime u\<rparr>" and lid: "lineId x = lid"
    by blast
  from arg_cong [OF eq, of lineId] lid show ?thesis by simp
qed


lemma placement_line:
  assumes "u \<in> set (schedulesToUpdate (optimizeDaySchedulesOp products productionLines schedules now d))"
  shows "u \<in> set (linePlacements products productionLines
                    (schedulesStartingOnTargetDay schedules (setHours d 0 0)) (setHours d 0 0)
                    (sameCalendarDay (setHours d 0 0) now) now (lineId u))"
proof -
  from assms obtain lid where
    mem: "u \<in> set (linePlacements products productionLines
                    (schedulesStartingOnTargetDay schedules (setHours d 0 0)) (setHours d 0 0)
                    (sameCalendarDay (setHours d 0 0) now) now lid)"
    by (auto simp: optimize_placements)
  from linePlacements_lineId [OF mem] mem show ?thesis by simp
qed

text \<open>
  Claim C9.  Every placement is a run of the snapshot with a new start and a new end and
  nothing else changed: id, line, product, quantity, status and notes are the run's own.
\<close>

theorem C9_only_times_change:
  assumes "u \<in> set (schedulesToUpdate (optimizeDaySchedulesOp products productionLines schedules now d))"
  shows "\<exists>r \<in> set schedules. u = r\<lparr>startTime := startTime u, endTime := endTime u\<rparr>
           \<and> s_id u = s_id r \<and> lineId u = lineId r \<and> productId u = productId r
           \<and> quantity u = quantity r \<and> status u = status r \<and> s_notes u = s_notes r"
proof -
  from linePlacements_origin [OF placement_line [OF assms]] obtain r
    where mem: "r \<in> set schedules"
      and eq: "u = r\<lparr>startTime := startTime u, endTime := endTime u\<rparr>"
    by (auto simp: schedulesStartingOnTargetDay_def)
  have "s_id u = s_id r" "lineId u = lineId r" "productId u = productId r"
    "quantity u = quantity r" "status u = status r" "s_notes u = s_notes r"
    using arg_cong [OF eq, of s_id] arg_cong [OF eq, of lineId] arg_cong [OF eq, of productId]
      arg_cong [OF eq, of quantity] arg_cong [OF eq, of status] arg_cong [OF eq, of s_notes]
    by simp_all
  with mem eq show ?thesis by blast
qed

theorem C9_only_times_change_witness:
  "runOn ''b'' ''pn'' (clock 10 0) (clock 12 0) 2 Pendente
     \<in> set (schedulesToUpdate (optimizeDaySchedulesOp [normalProduct, topProduct] [lineL]
         [runOn ''a'' ''pn'' (clock 8 0) (clock 10 0) 2 Pendente,
          runOn ''b'' ''pn'' (clock 8 0) (clock 10 0) 2 Pendente] 0 monday))
   \<and> (\<exists>r \<in> set [runOn ''a'' ''pn'' (clock 8 0) (clock 10 0) 2 Pendente,
                  runOn ''b'' ''pn'' (clock 8 0) (clock 10 0) 2 Pendente].
         s_id r = ''b'' \<and> lineId r = ''L'' \<and> productId r = ''pn'' \<and> quantity r = 2
         \<and> status r = Pendente \<and> s_notes r = None)"
proof -
  have mem: "runOn ''b'' ''pn'' (clock 10 0) (clock 12 0) 2 Pendente
     \<in> set (schedulesToUpdate (optimizeDaySchedulesOp [normalProduct, topProduct] [lineL]
         [runOn ''a'' ''pn'' (clock 8 0) (clock 10 0) 2 Pendente,
          runOn ''b'' ''pn'' (clock 8 0) (clock 10 0) 2 Pendente] 0 monday))"
    by code_simp
  from C9_only_times_change [OF mem] mem show ?thesis
    by (simp add: runOn_def)
qed

lemma concat_lines_free:
  assumes "distinct lids"
  shows "sorted_wrt (\<lambda>a b. lineId a = lineId b \<longrightarrow> \<not> runsOverlap a b)
           (concat (map (linePlacements products productionLines onDay t isToday now) lids))"
  using assms
proof (induction lids)
  case Nil
  show ?case by simp
next
  case (Cons lid lids)
  have own: "sorted_wrt (\<lambda>a b. lineId a = lineId b \<longrightarrow> \<not> runsOverlap a b)
               (linePlacements products productionLines onDay t isToday now lid)"
  proof (cases "getProductionLineById productionLines lid")
    case None
    then show ?thesis by (simp add: linePlacements_def)
  next
    case (Some line)
    have "sorted_wrt (\<lambda>a b. \<not> runsOverlap a b)
            (linePlacements products productionLines onDay t isToday now lid)"
      using placeAll_free by (simp add: linePlacements_def Some)
    then show ?thesis
      by (rule sorted_wrt_mono_rel [rotated]) simp
  qed
  have cross: "lineId x \<noteq> lineId y"
    if "x \<in> set (linePlacements products productionLines onDay t isToday now lid)"
      and "y \<in> set (concat (map (linePlacements products productionLines onDay t isToday now) lids))"
    for x y
  proof -
    from that(2) obtain lid' where "lid' \<in> set lids"
      and "y \<in> set (linePlacements products productionLines onDay t isToday now lid')"
      by auto
    with linePlacements_lineId that(1) Cons.prems show ?thesis
      by fastforce
  qed
  from Cons own cross show ?case
    by (auto simp: sorted_wrt_append)
qed

text \<open>
  Claim C1, as amended.  No two placements on the same line overlap, and no placement
  overlaps a locked run of that line that starts on the target day (a run is locked when
  it is not both of a Normal product and pending).
\<close>

theorem C1_placements_do_not_overlap:
  assumes "ups = schedulesToUpdate (optimizeDaySchedulesOp products productionLines schedules now d)"
  shows "(\<forall>i j. i < j \<and> j < length ups \<and> lineId (ups ! i) = lineId (ups ! j)
            \<longrightarrow> \<not> runsOverlap (ups ! i) (ups ! j))
       \<and> (\<forall>u \<in> set ups. \<forall>r \<in> set schedules.
            lineId r = lineId u \<and> sameCalendarDay (startTime r) (setHours d 0 0)
              \<and> \<not> isNormalPending products r
            \<longrightarrow> \<not> runsOverlap u r)"
proof -
  let ?onDay = "schedulesStartingOnTargetDay schedules (setHours d 0 0)"
  have "sorted_wrt (\<lambda>a b. lineId a = lineId b \<longrightarrow> \<not> runsOverlap a b) ups"
    unfolding assms optimize_placements
    by (rule concat_lines_free) simp
  then have pairs: "\<forall>i j. i < j \<and> j < length ups \<and> lineId (ups ! i) = lineId (ups ! j)
            \<longrightarrow> \<not> runsOverlap (ups ! i) (ups ! j)"
    by (simp add: sorted_wrt_iff_nth_less)
  have locked: "\<not> runsOverlap u r"
    if u: "u \<in> set ups" and r: "r \<in> set schedules" and l: "lineId r = lineId u"
      and day: "sameCalendarDay (startTime r) (setHours d 0 0)"
      and np: "\<not> isNormalPending products r" for u r
  proof -
    from u have lp: "u \<in> set (linePlacements products productionLines ?onDay (setHours d 0 0)
                    (sameCalendarDay (setHours d 0 0) now) now (lineId u))"
      unfolding assms by (rule placement_line)
    then obtain line where
      pa: "u \<in> set (placeAll products line (setHours d 0 0) (sameCalendarDay (setHours d 0 0) now) now
                 (sort_key startTime (fixedOf products ?onDay (lineId u)))
                 (sort_key startTime (normalsOf products ?onDay (lineId u))))"
      by (auto simp: linePlacements_def split: option.splits)
    have "r \<in> set (sort_key startTime (fixedOf products ?onDay (lineId u)))"
      using r l day np by (simp add: fixedOf_def schedulesStartingOnTargetDay_def)
    with pa placeAll_free show ?thesis by blast
  qed
  from pairs locked show ?thesis by blast
qed

theorem C1_placements_do_not_overlap_witness:
  "schedulesToUpdate (optimizeDaySchedulesOp [normalProduct, topProduct] [lineL]
      [runOn ''t'' ''pt'' (clock 9 0) (clock 10 0) 1 Pendente,
       runOn ''a'' ''pn'' (clock 8 0) (clock 9 0) 1 Pendente,
       runOn ''b'' ''pn'' (clock 8 0) (clock 10 0) 2 Pendente] 0 monday)
     = [runOn ''a'' ''pn'' (clock 8 0) (clock 9 0) 1 Pendente,
        runOn ''b'' ''pn'' (clock 10 0) (clock 12 0) 2 Pendente]
   \<and> \<not> runsOverlap (runOn ''a'' ''pn'' (clock 8 0) (clock 9 0) 1 Pendente)
                     (runOn ''b'' ''pn'' (clock 10 0) (clock 12 0) 2 Pendente)
   \<and> sameCalendarDay (startTime (runOn ''t'' ''pt'' (clock 9 0) (clock 10 0) 1 Pendente))
        (setHours monday 0 0)
   \<and> \<not> isNormalPending [normalProduct, topProduct] (runOn ''t'' ''pt'' (clock 9 0) (clock 10 0) 1 Pendente)
   \<and> \<not> runsOverlap (runOn ''b'' ''pn'' (clock 10 0) (clock 12 0) 2 Pendente)
                     (runOn ''t'' ''pt'' (clock 9 0) (clock 10 0) 1 Pendente)"
proof -
  let ?t = "runOn ''t'' ''pt'' (clock 9 0) (clock 10 0) 1 Pendente"
  let ?a = "runOn ''a'' ''pn'' (clock 8 0) (clock 9 0) 1 Pendente"
  let ?b = "runOn ''b'' ''pn'' (clock 8 0) (clock 10 0) 2 Pendente"
  let ?b' = "runOn ''b'' ''pn'' (clock 10 0) (clock 12 0) 2 Pendente"
  have ups: "[?a, ?b'] = schedulesToUpdate (optimizeDaySchedulesOp [normalProduct, topProduct] [lineL]
      [?t, ?a, ?b] 0 monday)"
    by code_simp
  have day: "sameCalendarDay (startTime ?t) (setHours monday 0 0)"
    by code_simp
  have locked: "\<not> isNormalPending [normalProduct, topProduct] ?t"
    by code_simp
  note c1 = C1_placements_do_not_overlap [OF ups]
  from c1 have "(0::nat) < 1 \<and> 1 < length [?a, ?b'] \<and> lineId ([?a, ?b'] ! 0) = lineId ([?a, ?b'] ! 1)
      \<longrightarrow> \<not> runsOverlap ([?a, ?b'] ! 0) ([?a, ?b'] ! 1)"
    by blast
  then have pair: "\<not> runsOverlap ?a ?b'"
    by (simp add: runOn_def)
  from c1 have "lineId ?t = lineId ?b' \<and> sameCalendarDay (startTime ?t) (setHours monday 0 0)
      \<and> \<not> isNormalPending [normalProduct, topProduct] ?t \<longrightarrow> \<not> runsOverlap ?b' ?t"
    by simp
  with day locked have "\<not> runsOverlap ?b' ?t"
    by (simp add: runOn_def)
  with ups pair day locked show ?thesis by simp
qed

text \<open>A TopSeller run of the line that started the evening before and ends at 09:00 is
  not among the slots: the run to optimize is placed from 08:00 to 09:00, on top of it.\<close>

theorem C1_locked_from_the_day_before_counterexample:
  "schedulesToUpdate (optimizeDaySchedulesOp [normalProduct, topProduct] [lineL]
      [runOn ''t'' ''pt'' (clock (- 1) 0) (clock 9 0) 10 Pendente,
       runOn ''b'' ''pn'' (clock 10 0) (clock 11 0) 1 Pendente] 0 monday)
     = [runOn ''b'' ''pn'' (clock 8 0) (clock 9 0) 1 Pendente]
   \<and> classificationOf [normalProduct, topProduct]
        (runOn ''t'' ''pt'' (clock (- 1) 0) (clock 9 0) 10 Pendente) = Some TopSeller
   \<and> lineId (runOn ''t'' ''pt'' (clock (- 1) 0) (clock 9 0) 10 Pendente)
        = lineId (runOn ''b'' ''pn'' (clock 8 0) (clock 9 0) 1 Pendente)
   \<and> runsOverlap (runOn ''b'' ''pn'' (clock 8 0) (clock 9 0) 1 Pendente)
                   (runOn ''t'' ''pt'' (clock (- 1) 0) (clock 9 0) 10 Pendente)"
  by code_simp

text \<open>The optimizer itself only ever places pending runs of Normal products.\<close>

lemma optimizer_places_only_normal_pending:
  assumes "u \<in> set (schedulesToUpdate (optimizeDaySchedulesOp products productionLines schedules now d))"
  shows "classificationOf products u = Some Normal \<and> status u = Pendente"
proof -
  from linePlacements_origin [OF placement_line [OF assms]] obtain r
    where eq: "u = r\<lparr>startTime := startTime u, endTime := endTime u\<rparr>"
      and np: "isNormalPending products r"
    by blast
  from np have "isNormalPending products (r\<lparr>startTime := startTime u, endTime := endTime u\<rparr>)"
    by simp
  with eq have "isNormalPending products u" by simp
  then show ?thesis by (simp add: isNormalPending_def)
qed

section \<open>Minutes of the day and instants\<close>

lemma int_div_less_iff:
  fixes x k s :: int
  assumes "0 < k"
  shows "(x div k < s) = (x < s * k)"
proof
  have eq: "x = (x div k) * k + x mod k" by simp
  have b: "0 \<le> x mod k" "x mod k < k" using assms by simp_all
  {
    assume "x div k < s"
    then have "x div k + 1 \<le> s" by simp
    then have "(x div k + 1) * k \<le> s * k"
      using assms by (simp add: mult_right_mono)
    then have "(x div k) * k + k \<le> s * k"
      by (simp add: algebra_simps)
    with eq b show "x < s * k" by linarith
  }
  {
    assume lt: "x < s * k"
    show "x div k < s"
    proof (rule ccontr)
      assume "\<not> x div k < s"
      then have "s * k \<le> (x div k) * k"
        using assms by (simp add: mult_right_mono)
      with eq b lt show False by linarith
    qed
  }
qed

lemma minutesOfDay_eq: "minutesOfDay t = (t mod 86400000) div 60000"
proof -
  have "(t mod 86400000) div (60000 * 60) = ((t mod 86400000) div 60000) div 60"
    by (rule zdiv_zmult2_eq) simp
  then have "(t mod 86400000) div 3600000 = ((t mod 86400000) div 60000) div 60"
    by simp
  then show ?thesis
    by (simp add: minutesOfDay_def getHours_def getMinutes_def TimeWithinDay_def msPerDay_def)
qed

lemma day_split: "t = Day t * 86400000 + t mod 86400000"
  by (simp add: Day_def msPerDay_def)

lemma setHours_midnight: "setHours d 0 0 = Day d * 86400000"
  by (simp add: setHours_def msPerDay_def)


lemma getDate_same_day: "Day a = Day d \<Longrightarrow> getDate a = getDate d"
  by (simp add: getDate_def)

section \<open>Starts within the target day\<close>

lemma Day_mono: "a \<le> b \<Longrightarrow> Day a \<le> Day b"
  by (simp add: Day_def msPerDay_def zdiv_mono1)

lemma Day_between: "a \<le> b \<Longrightarrow> b \<le> c \<Longrightarrow> Day a = Day c \<Longrightarrow> Day b = Day a"
  using Day_mono [of a b] Day_mono [of b c] by simp

lemma minutesOfDay_mono:
  assumes "Day a = Day b" and "a \<le> b"
  shows "minutesOfDay a \<le> minutesOfDay b"
proof -
  have "a mod 86400000 \<le> b mod 86400000"
    using day_split [of a] day_split [of b] assms by linarith
  then show ?thesis
    by (simp add: minutesOfDay_eq zdiv_mono1)
qed

text \<open>Between the search origin and a slot of the target day that passes the tests of
  the loop head, every start passes them.\<close>

lemma slotAllowed_between:
  assumes t: "t \<le> b" and bp: "b \<le> p" and d: "0 \<le> d"
    and dp: "Day p = Day t" and dq: "Day (p + d * 60000) = Day t"
    and al: "slotAllowed t oe d p"
  shows "slotAllowed t oe d b"
proof -
  have db: "Day b = Day t"
    using Day_between [OF t bp] dp by simp
  have "t \<le> b + d * 60000" "b + d * 60000 \<le> p + d * 60000"
    using t bp d by simp_all
  then have de: "Day (b + d * 60000) = Day t"
    using Day_between [of t "b + d * 60000" "p + d * 60000"] dq by simp
  have m1: "minutesOfDay b \<le> minutesOfDay p"
    by (rule minutesOfDay_mono) (simp_all add: db dp bp)
  have m2: "minutesOfDay (b + d * 60000) \<le> minutesOfDay (p + d * 60000)"
    by (rule minutesOfDay_mono) (simp_all add: de dq bp)
  from al m1 m2 getDate_same_day [OF db] getDate_same_day [OF de] show ?thesis
    by (auto simp: slotAllowed_def)
qed

lemma Day_midnight [simp]: "Day (k * 86400000) = k"
  by (simp add: Day_def msPerDay_def)

lemma Day_setHours [simp]: "Day (setHours d 0 0) = Day d"
  by (simp add: setHours_midnight)

lemma setHours_minutes: "setHours t (s div 60) (s mod 60) = Day t * 86400000 + s * 60000"
proof -
  have g: "(a * 60 + b) * 60000 = a * 3600000 + b * 60000" for a b :: int
    by (simp add: algebra_simps)
  have "s * 60000 = (s div 60 * 60 + s mod 60) * 60000" by simp
  also have "\<dots> = (s div 60) * 3600000 + (s mod 60) * 60000" by (rule g)
  finally show ?thesis
    by (simp add: setHours_def msPerDay_def)
qed

lemma effectiveStart_ge:
  assumes "0 \<le> s"
  shows "setHours d 0 0 \<le> effectiveStartOfSearchWindow (setHours d 0 0) isToday now s"
proof -
  have "setHours d 0 0 \<le> setHours (setHours d 0 0) (s div 60) (s mod 60)"
    using assms by (simp add: setHours_minutes setHours_midnight)
  then show ?thesis
    by (auto simp: effectiveStartOfSearchWindow_def)
qed

section \<open>What a pass of the optimizer leaves on a line\<close>

lemma findPlacement_moved [simp]:
  "findPlacement products line t isToday now slots (x\<lparr>startTime := a, endTime := b\<rparr>)
     = findPlacement products line t isToday now slots x"
  by (simp add: findPlacement_alt split: option.splits)

lemma findPlacement_positive:
  assumes "findPlacement products line t isToday now slots x = Some (p, q)"
  shows "p < q"
proof -
  from assms obtain oe eff where d: "0 < durationOf products line x"
    and s: "searchSlot t oe (durationOf products line x) eff slots eff = Some (p, q)"
    by (auto elim: findPlacement_SomeD)
  from searchSlot_Some_basic [OF s] d show ?thesis by simp
qed

lemma runsOverlap_self: "startTime y < endTime y \<Longrightarrow> runsOverlap y y"
  by (simp add: runsOverlap_def overlaps_def)

text \<open>What a pass leaves behind on a line: every placement has a positive length and is
  the slot that the search finds for the run among slots that are fixed runs or other
  placements.\<close>

lemma placeAll_found:
  "\<forall>y \<in> set (placeAll products line t isToday now slots xs).
      startTime y < endTime y
      \<and> (\<exists>slots'. set slots' \<subseteq> set slots \<union> (set (placeAll products line t isToday now slots xs) - {y})
            \<and> findPlacement products line t isToday now slots' y = Some (startTime y, endTime y))"
proof (induction xs arbitrary: slots)
  case Nil
  show ?case by simp
next
  case (Cons x xs)
  show ?case
  proof (cases "findPlacement products line t isToday now slots x")
    case None
    with Cons.IH [of slots] show ?thesis by simp
  next
    case (Some ab)
    obtain a b where ab: "ab = (a, b)" by (cases ab)
    define u where "u = x\<lparr>startTime := a, endTime := b\<rparr>"
    define slots1 where "slots1 = sort_key startTime (slots @ [u])"
    define rest where "rest = placeAll products line t isToday now slots1 xs"
    have all: "placeAll products line t isToday now slots (x # xs) = u # rest"
      using Some ab by (simp add: u_def slots1_def rest_def)
    have pos: "a < b"
      using findPlacement_positive Some ab by blast
    have u_times: "startTime u = a" "endTime u = b"
      by (simp_all add: u_def)
    have fu: "findPlacement products line t isToday now slots u = Some (startTime u, endTime u)"
      using Some ab unfolding u_times by (simp add: u_def)
    have set1: "set slots1 = set slots \<union> {u}"
      by (simp add: slots1_def)
    have head: "startTime u < endTime u
        \<and> (\<exists>slots'. set slots' \<subseteq> set slots \<union> (set (u # rest) - {u})
              \<and> findPlacement products line t isToday now slots' u = Some (startTime u, endTime u))"
    proof (intro conjI exI [of _ slots])
      show "startTime u < endTime u" using pos by (simp add: u_times)
      show "set slots \<subseteq> set slots \<union> (set (u # rest) - {u})" by (rule Un_upper1)
      show "findPlacement products line t isToday now slots u = Some (startTime u, endTime u)"
        by (rule fu)
    qed
    have tail: "startTime y < endTime y
        \<and> (\<exists>slots'. set slots' \<subseteq> set slots \<union> (set (u # rest) - {y})
              \<and> findPlacement products line t isToday now slots' y = Some (startTime y, endTime y))"
      if y: "y \<in> set rest" for y
    proof -
      from Cons.IH [of slots1] y [unfolded rest_def] obtain slots' where py: "startTime y < endTime y"
        and sub: "set slots' \<subseteq> set slots1 \<union> (set rest - {y})"
        and f: "findPlacement products line t isToday now slots' y = Some (startTime y, endTime y)"
        unfolding rest_def by blast
      have "u \<in> set slots1" by (simp add: set1)
      with placeAll_free [of products line t isToday now slots1 xs] y
      have "\<not> runsOverlap y u"
        unfolding rest_def by blast
      with runsOverlap_self [OF py] have ne: "y \<noteq> u" by blast
      have "set slots1 \<union> (set rest - {y}) \<subseteq> set slots \<union> (set (u # rest) - {y})"
        using ne unfolding set1 by auto
      with sub have "set slots' \<subseteq> set slots \<union> (set (u # rest) - {y})"
        by (rule subset_trans)
      with py f show ?thesis by blast
    qed
    have "\<forall>y \<in> set (u # rest). startTime y < endTime y
        \<and> (\<exists>slots'. set slots' \<subseteq> set slots \<union> (set (u # rest) - {y})
              \<and> findPlacement products line t isToday now slots' y = Some (startTime y, endTime y))"
    proof
      fix y
      assume "y \<in> set (u # rest)"
      then consider "y = u" | "y \<in> set rest" by auto
      then show "startTime y < endTime y
        \<and> (\<exists>slots'. set slots' \<subseteq> set slots \<union> (set (u # rest) - {y})
              \<and> findPlacement products line t isToday now slots' y = Some (startTime y, endTime y))"
      proof cases
        case 1
        show ?thesis unfolding 1 by (rule head)
      next
        case 2
        then show ?thesis by (rule tail)
      qed
    qed
    then show ?thesis
      unfolding all .
  qed
qed

lemma sorted_wrt_symmetric:
  assumes "sorted_wrt R xs" and "\<And>a b. R a b \<Longrightarrow> R b a"
  shows "\<forall>x \<in> set xs. \<forall>y \<in> set xs. x \<noteq> y \<longrightarrow> R x y"
  using assms(1)
proof (induction xs)
  case Nil
  show ?case by simp
next
  case (Cons a xs)
  from Cons.prems have h: "\<forall>y \<in> set xs. R a y" and s: "sorted_wrt R xs"
    by simp_all
  from h assms(2) have h': "\<forall>y \<in> set xs. R y a"
    by blast
  from Cons.IH [OF s] h h' show ?case
    by auto
qed

lemma placeAll_pairwise:
  "\<forall>y \<in> set (placeAll products line t isToday now slots xs).
     \<forall>u \<in> set (placeAll products line t isToday now slots xs). y \<noteq> u \<longrightarrow> \<not> runsOverlap y u"
proof (rule sorted_wrt_symmetric)
  show "sorted_wrt (\<lambda>a b. \<not> runsOverlap a b) (placeAll products line t isToday now slots xs)"
    using placeAll_free by blast
  show "\<not> runsOverlap b a" if "\<not> runsOverlap a b" for a b
    using that runsOverlap_sym by blast
qed

section \<open>A second pass over the placements of a first\<close>

lemma run_unmoved [simp]: "y\<lparr>startTime := startTime y, endTime := endTime y\<rparr> = y"
  by simp

text \<open>The search finds the same slot for a run among other slots, when the slots it was
  found among are either still there or start no earlier than it and keep clear of it.\<close>

lemma replay_one:
  assumes f: "findPlacement products line t isToday now slots0 y = Some (startTime y, endTime y)"
    and free: "\<forall>e \<in> set slots'. \<not> runsOverlap y e"
    and covered: "\<forall>e \<in> set slots0. e \<in> set slots'
                    \<or> (startTime y \<le> startTime e \<and> startTime e < endTime e \<and> \<not> runsOverlap y e)"
    and within: "Day (startTime y) = Day t" "Day (endTime y) = Day t"
    and origin: "\<forall>oe eff. searchWindow line t isToday now = Some (oe, eff) \<longrightarrow> t \<le> eff"
  shows "findPlacement products line t isToday now slots' y = Some (startTime y, endTime y)"
proof -
  define d where "d = durationOf products line y"
  define p where "p = startTime y"
  from f obtain oe eff where w: "searchWindow line t isToday now = Some (oe, eff)"
    and dpos: "0 < d" and m: "minutesOfDay eff < oe"
    and s: "searchSlot t oe d eff slots0 eff = Some (p, endTime y)"
    unfolding d_def p_def by (auto elim: findPlacement_SomeD)
  from searchSlot_Some_basic [OF s] have q: "endTime y = p + d * 60000"
    and al: "slotAllowed t oe d p"
    by simp_all
  from searchSlot_Some_earliest [OF s] have ep: "eff \<le> p"
    and early: "\<forall>b. eff \<le> b \<and> b < p \<longrightarrow> collidingSlot b (b + d * 60000) slots0 \<noteq> None"
    by simp_all
  from origin w have te: "t \<le> eff" by blast
  have allowed: "\<forall>b. eff \<le> b \<and> b \<le> p \<longrightarrow> slotAllowed t oe d b"
  proof (intro allI impI)
    fix b
    assume b: "eff \<le> b \<and> b \<le> p"
    show "slotAllowed t oe d b"
    proof (rule slotAllowed_between [where p = p])
      show "t \<le> b" using te b by simp
      show "b \<le> p" using b by simp
      show "0 \<le> d" using dpos by simp
      show "Day p = Day t" using within(1) by (simp add: p_def)
      show "Day (p + d * 60000) = Day t" using within(2) q by simp
      show "slotAllowed t oe d p" by (rule al)
    qed
  qed
  have clear: "collidingSlot p (p + d * 60000) slots' = None"
    using free collidingSlot_None_runs [of y slots'] q by (simp add: p_def)
  have busy: "\<forall>b. eff \<le> b \<and> b < p \<longrightarrow> collidingSlot b (b + d * 60000) slots' \<noteq> None"
  proof (intro allI impI)
    fix b
    assume b: "eff \<le> b \<and> b < p"
    with early obtain e where col: "collidingSlot b (b + d * 60000) slots0 = Some e"
      by auto
    from collidingSlot_SomeD [OF col] have mem: "e \<in> set slots0"
      and be: "b < endTime e" and eb: "startTime e < b + d * 60000"
      by auto
    have "e \<in> set slots'"
    proof (rule ccontr)
      assume "e \<notin> set slots'"
      with covered mem have ge: "p \<le> startTime e" and pe: "startTime e < endTime e"
        and no: "\<not> runsOverlap y e"
        by (auto simp: p_def)
      from no ge pe q have "p + d * 60000 \<le> startTime e"
        by (auto simp: runsOverlap_def overlaps_def p_def)
      with eb b show False by simp
    qed
    with be eb show "collidingSlot b (b + d * 60000) slots' \<noteq> None"
      by (auto simp: collidingSlot_None_iff)
  qed
  have "searchSlot t oe d eff slots' eff = Some (p, p + d * 60000)"
    by (rule searchSlot_finds [OF order_refl ep allowed clear busy])
  with w dpos m q show ?thesis
    by (simp add: findPlacement_alt searchFrom_def d_def p_def)
qed

text \<open>A second pass over the placements of a first pass, in the order of their starts
  and from the same fixed runs, places every one of them where it is.\<close>

lemma replay:
  assumes pos: "\<forall>y \<in> set us. startTime y < endTime y"
    and freeF: "\<forall>y \<in> set us. \<forall>e \<in> set F. \<not> runsOverlap y e"
    and pair: "\<forall>y \<in> set us. \<forall>u \<in> set us. y \<noteq> u \<longrightarrow> \<not> runsOverlap y u"
    and found: "\<forall>y \<in> set us. \<exists>slots0. set slots0 \<subseteq> set F \<union> (set us - {y})
                  \<and> findPlacement products line t isToday now slots0 y = Some (startTime y, endTime y)"
    and within: "\<forall>y \<in> set us. Day (startTime y) = Day t \<and> Day (endTime y) = Day t"
    and origin: "\<forall>oe eff. searchWindow line t isToday now = Some (oe, eff) \<longrightarrow> t \<le> eff"
  shows "set rest \<subseteq> set us \<Longrightarrow> distinct rest \<Longrightarrow> sorted (map startTime rest)
           \<Longrightarrow> set slots' = set F \<union> (set us - set rest)
           \<Longrightarrow> placeAll products line t isToday now slots' rest = rest"
proof (induction rest arbitrary: slots')
  case Nil
  show ?case by simp
next
  case (Cons y rest)
  from Cons.prems(1) have yus: "y \<in> set us" and sub: "set rest \<subseteq> set us"
    by simp_all
  from Cons.prems(2) have ynr: "y \<notin> set rest" and dist: "distinct rest"
    by simp_all
  from Cons.prems(3) have later: "\<forall>e \<in> set rest. startTime y \<le> startTime e"
    and srt: "sorted (map startTime rest)"
    by simp_all
  from found yus obtain slots0 where s0: "set slots0 \<subseteq> set F \<union> (set us - {y})"
    and f: "findPlacement products line t isToday now slots0 y = Some (startTime y, endTime y)"
    by blast
  have free: "\<forall>e \<in> set slots'. \<not> runsOverlap y e"
  proof
    fix e
    assume "e \<in> set slots'"
    with Cons.prems(4) consider "e \<in> set F" | "e \<in> set us" "e \<noteq> y" by auto
    then show "\<not> runsOverlap y e"
    proof cases
      case 1
      with freeF yus show ?thesis by blast
    next
      case 2
      from 2(2) have "y \<noteq> e" by (rule not_sym)
      with bspec [OF bspec [OF pair yus] 2(1)] show ?thesis by (rule mp)
    qed
  qed
  have covered: "\<forall>e \<in> set slots0. e \<in> set slots'
                    \<or> (startTime y \<le> startTime e \<and> startTime e < endTime e \<and> \<not> runsOverlap y e)"
  proof
    fix e
    assume "e \<in> set slots0"
    with s0 consider "e \<in> set F" | "e \<in> set us" "e \<noteq> y" by auto
    then show "e \<in> set slots'
                    \<or> (startTime y \<le> startTime e \<and> startTime e < endTime e \<and> \<not> runsOverlap y e)"
    proof cases
      case 1
      with Cons.prems(4) show ?thesis by simp
    next
      case 2
      show ?thesis
      proof (cases "e \<in> set rest")
        case True
        from 2(2) have "y \<noteq> e" by (rule not_sym)
        with bspec [OF bspec [OF pair yus] 2(1)] have "\<not> runsOverlap y e" by (rule mp)
        moreover from later True have "startTime y \<le> startTime e" by (rule bspec)
        moreover from pos 2(1) have "startTime e < endTime e" by (rule bspec)
        ultimately show ?thesis by simp
      next
        case False
        with 2 Cons.prems(4) show ?thesis by simp
      qed
    qed
  qed
  from within yus have w1: "Day (startTime y) = Day t" and w2: "Day (endTime y) = Day t"
    by blast+
  have here: "findPlacement products line t isToday now slots' y = Some (startTime y, endTime y)"
    by (rule replay_one [OF f free covered w1 w2 origin])
  have "set (slots' @ [y]) = set F \<union> (set us - set rest)"
    using Cons.prems(4) yus ynr by auto
  then have "set (sort_key startTime (slots' @ [y])) = set F \<union> (set us - set rest)"
    by (simp only: set_sort)
  from Cons.IH [OF sub dist srt this]
  have "placeAll products line t isToday now (sort_key startTime (slots' @ [y])) rest = rest" .
  then show ?case
    by (simp only: placeAll.simps here option.case prod.case run_unmoved)
qed

section \<open>The schedule list after the placements are written\<close>

lemma foldl_replace_none:
  "s_id s \<notin> s_id ` set us
     \<Longrightarrow> foldl (\<lambda>s u. if s_id s = s_id u then u else s) s us = s"
  by (induction us) auto

lemma foldl_replace_one:
  "distinct (map s_id us) \<Longrightarrow> u \<in> set us \<Longrightarrow> s_id u = s_id s
     \<Longrightarrow> foldl (\<lambda>s u. if s_id s = s_id u then u else s) s us = u"
proof (induction us arbitrary: s)
  case Nil
  then show ?case by simp
next
  case (Cons v us)
  show ?case
  proof (cases "s_id s = s_id v")
    case True
    have nv: "s_id v \<notin> s_id ` set us"
      using Cons.prems(1) by simp
    have "u = v"
    proof (rule ccontr)
      assume "u \<noteq> v"
      with Cons.prems(2) have "u \<in> set us" by simp
      then have "s_id u \<in> s_id ` set us" by (rule imageI)
      with nv True Cons.prems(3) show False by simp
    qed
    with True foldl_replace_none [OF nv] show ?thesis by simp
  next
    case False
    with Cons.prems(2,3) have "u \<in> set us" by auto
    from Cons.IH [OF _ this Cons.prems(3)] Cons.prems(1) False show ?thesis by simp
  qed
qed

lemma s_id_foldl_replace [simp]:
  "s_id (foldl (\<lambda>s u. if s_id s = s_id u then u else s) s us) = s_id s"
  by (induction us arbitrary: s) auto

lemma mset_applyUpdates:
  "mset (applyUpdates us schedules)
     = image_mset (\<lambda>s. foldl (\<lambda>s u. if s_id s = s_id u then u else s) s us) (mset schedules)"
  by (simp add: applyUpdates_def mset_foldl_updateScheduleOp)

lemma set_applyUpdates:
  "set (applyUpdates us schedules)
     = (\<lambda>s. foldl (\<lambda>s u. if s_id s = s_id u then u else s) s us) ` set schedules"
proof -
  have "set (applyUpdates us schedules) = set_mset (mset (applyUpdates us schedules))"
    by simp
  also have "\<dots> = set_mset (image_mset
      (\<lambda>s. foldl (\<lambda>s u. if s_id s = s_id u then u else s) s us) (mset schedules))"
    by (simp only: mset_applyUpdates)
  also have "\<dots> = (\<lambda>s. foldl (\<lambda>s u. if s_id s = s_id u then u else s) s us) ` set schedules"
    by simp
  finally show ?thesis .
qed

lemma distinct_ids_applyUpdates:
  assumes "distinct (map s_id schedules)"
  shows "distinct (map s_id (applyUpdates us schedules))"
proof -
  have "mset (map s_id (applyUpdates us schedules)) = mset (map s_id schedules)"
    by (simp add: mset_applyUpdates multiset.map_comp comp_def)
  then show ?thesis
    using assms mset_eq_imp_distinct_iff by blast
qed

lemma sorted_applyUpdates:
  "us \<noteq> [] \<Longrightarrow> sorted (map startTime (applyUpdates us schedules))"
proof (induction us rule: rev_induct)
  case Nil
  then show ?case by simp
next
  case (snoc u us)
  show ?case
    by (simp add: applyUpdates_def updateScheduleOp_def)
qed

text \<open>Writing a run that the list already holds, the list being sorted by start and its
  ids distinct, changes nothing.\<close>

lemma updateScheduleOp_same:
  assumes "u \<in> set xs" and "distinct (map s_id xs)" and "sorted (map startTime xs)"
  shows "updateScheduleOp u xs = xs"
proof -
  have "(if s_id s = s_id u then u else s) = s" if "s \<in> set xs" for s
    using that assms(1,2) by (auto simp: distinct_map dest: inj_onD)
  then have "map (\<lambda>s. if s_id s = s_id u then u else s) xs = xs"
    by (simp add: map_idI)
  with assms(3) show ?thesis
    by (simp add: updateScheduleOp_def sort_key_id_if_sorted)
qed

lemma applyUpdates_same:
  assumes "set us \<subseteq> set xs" and "distinct (map s_id xs)" and "sorted (map startTime xs)"
  shows "applyUpdates us xs = xs"
  using assms(1)
proof (induction us)
  case Nil
  show ?case by (simp add: applyUpdates_def)
next
  case (Cons u us)
  then have "u \<in> set xs" and "set us \<subseteq> set xs" by simp_all
  with Cons.IH updateScheduleOp_same [OF _ assms(2,3)] show ?case
    by (simp add: applyUpdates_def)
qed

lemma placeAll_ids:
  "distinct (map s_id xs)
     \<Longrightarrow> distinct (map s_id (placeAll products line t isToday now slots xs))
         \<and> s_id ` set (placeAll products line t isToday now slots xs) \<subseteq> s_id ` set xs"
proof (induction xs arbitrary: slots)
  case Nil
  show ?case by simp
next
  case (Cons x xs)
  from Cons.prems have d: "distinct (map s_id xs)" and nx: "s_id x \<notin> s_id ` set xs"
    by simp_all
  show ?case
  proof (cases "findPlacement products line t isToday now slots x")
    case None
    with Cons.IH [OF d, of slots] show ?thesis by auto
  next
    case (Some ab)
    obtain a b where ab: "ab = (a, b)" by (cases ab)
    from Cons.IH [OF d, of "sort_key startTime (slots @ [x\<lparr>startTime := a, endTime := b\<rparr>])"] nx
    show ?thesis
      using Some ab by auto
  qed
qed

section \<open>The placements have the ids of distinct runs\<close>

lemma distinct_ids_sorted_filter:
  "distinct (map s_id xs) \<Longrightarrow> distinct (map s_id (sort_key startTime (filter P xs)))"
  by (auto simp: distinct_map intro: inj_on_subset)

lemma linePlacements_ids:
  assumes "distinct (map s_id onDay)"
  shows "distinct (map s_id (linePlacements products productionLines onDay t isToday now lid))"
proof (cases "getProductionLineById productionLines lid")
  case None
  then show ?thesis by (simp add: linePlacements_def)
next
  case (Some line)
  have "distinct (map s_id (filter (\<lambda>s. lineId s = lid) onDay))"
    using assms by (rule distinct_map_filter)
  then have "distinct (map s_id (sort_key startTime (normalsOf products onDay lid)))"
    unfolding normalsOf_def by (rule distinct_ids_sorted_filter)
  from placeAll_ids [OF this] show ?thesis
    by (simp add: linePlacements_def Some)
qed

lemma linePlacements_same_id:
  assumes d: "distinct (map s_id onDay)"
    and u: "u \<in> set (linePlacements products productionLines onDay t isToday now lid)"
    and v: "v \<in> set (linePlacements products productionLines onDay t isToday now lid')"
    and eq: "s_id u = s_id v"
  shows "lid = lid'"
proof -
  from linePlacements_origin [OF u] obtain x where x: "x \<in> set onDay"
    and ux: "u = x\<lparr>startTime := startTime u, endTime := endTime u\<rparr>" and lx: "lineId x = lid"
    by blast
  from linePlacements_origin [OF v] obtain y where y: "y \<in> set onDay"
    and vy: "v = y\<lparr>startTime := startTime v, endTime := endTime v\<rparr>" and ly: "lineId y = lid'"
    by blast
  from arg_cong [OF ux, of s_id] arg_cong [OF vy, of s_id] eq have "s_id x = s_id y"
    by simp
  moreover from d have "inj_on s_id (set onDay)"
    by (simp add: distinct_map)
  ultimately have "x = y"
    using x y by (auto dest: inj_onD)
  with lx ly show ?thesis by simp
qed

lemma concat_lines_distinct_ids:
  assumes d: "distinct (map s_id onDay)"
  shows "distinct lids
     \<Longrightarrow> distinct (map s_id (concat (map (linePlacements products productionLines onDay t isToday now) lids)))"
proof (induction lids)
  case Nil
  show ?case by simp
next
  case (Cons lid lids)
  from Cons.prems have nl: "lid \<notin> set lids" and dl: "distinct lids"
    by simp_all
  have disjoint: "s_id u \<noteq> s_id v"
    if u: "u \<in> set (linePlacements products productionLines onDay t isToday now lid)"
      and v: "v \<in> set (concat (map (linePlacements products productionLines onDay t isToday now) lids))"
    for u v
  proof
    assume eq: "s_id u = s_id v"
    from v obtain lid' where l': "lid' \<in> set lids"
      and v': "v \<in> set (linePlacements products productionLines onDay t isToday now lid')"
      by auto
    from linePlacements_same_id [OF d u v' eq] l' nl show False by simp
  qed
  from Cons.IH [OF dl] linePlacements_ids [OF d, of products productionLines t isToday now lid]
    disjoint
  show ?case
    by (auto simp: image_iff)
qed

lemma placements_distinct_ids:
  assumes "distinct (map s_id schedules)"
  shows "distinct (map s_id (schedulesToUpdate
           (optimizeDaySchedulesOp products productionLines schedules now d)))"
  unfolding optimize_placements
proof (rule concat_lines_distinct_ids)
  show "distinct (map s_id (schedulesStartingOnTargetDay schedules (setHours d 0 0)))"
    unfolding schedulesStartingOnTargetDay_def using assms by (rule distinct_map_filter)
  show "distinct (uniq (map lineId (schedulesStartingOnTargetDay schedules (setHours d 0 0))))"
    by simp
qed

lemma Day_within:
  assumes "k * 86400000 \<le> a" and "a < k * 86400000 + 86400000"
  shows "Day a = k"
proof -
  have "a < (k + 1) * 86400000"
    using assms(2) by (simp add: algebra_simps)
  then have "a div 86400000 < k + 1"
    by (simp add: int_div_less_iff)
  moreover have "k \<le> a div 86400000"
    using Day_mono [OF assms(1)] by (simp add: Day_def msPerDay_def)
  ultimately show ?thesis
    by (simp add: Day_def msPerDay_def)
qed

lemma sameCalendarDay_Day: "Day a = Day b \<Longrightarrow> sameCalendarDay a b"
  by (simp add: sameCalendarDay_def getFullYear_def getMonth_def getDate_def)

section \<open>What the second pass sees\<close>

lemma placement_origin:
  assumes "u \<in> set (schedulesToUpdate (optimizeDaySchedulesOp products productionLines schedules now d))"
  shows "\<exists>r \<in> set schedules. sameCalendarDay (startTime r) (setHours d 0 0)
           \<and> isNormalPending products r \<and> s_id r = s_id u \<and> lineId r = lineId u
           \<and> u = r\<lparr>startTime := startTime u, endTime := endTime u\<rparr>"
proof -
  from linePlacements_origin [OF placement_line [OF assms]] obtain r
    where r: "r \<in> set (schedulesStartingOnTargetDay schedules (setHours d 0 0))"
      and eq: "u = r\<lparr>startTime := startTime u, endTime := endTime u\<rparr>"
      and l: "lineId r = lineId u" and np: "isNormalPending products r"
    by blast
  from r have mem: "r \<in> set schedules" and day: "sameCalendarDay (startTime r) (setHours d 0 0)"
    by (simp_all add: schedulesStartingOnTargetDay_def)
  from arg_cong [OF eq, of s_id] have "s_id r = s_id u" by simp
  with mem day np l eq show ?thesis by blast
qed

lemma line_placement_is_placement:
  assumes "u \<in> set (linePlacements products productionLines
                      (schedulesStartingOnTargetDay schedules (setHours d 0 0)) (setHours d 0 0)
                      (sameCalendarDay (setHours d 0 0) now) now lid)"
  shows "u \<in> set (schedulesToUpdate (optimizeDaySchedulesOp products productionLines schedules now d))"
proof -
  from linePlacements_origin [OF assms] obtain x
    where "x \<in> set (schedulesStartingOnTargetDay schedules (setHours d 0 0))" and "lineId x = lid"
    by blast
  then have "lid \<in> set (uniq (map lineId (schedulesStartingOnTargetDay schedules (setHours d 0 0))))"
    by auto
  with assms show ?thesis
    unfolding optimize_placements by auto
qed

text \<open>After the placements are written the list holds the placements and the runs that
  were not to be optimized that day.\<close>

lemma applied_set:
  assumes ids: "distinct (map s_id schedules)"
    and first: "ups = schedulesToUpdate (optimizeDaySchedulesOp products productionLines schedules now d)"
    and placed: "\<forall>r \<in> set schedules. sameCalendarDay (startTime r) (setHours d 0 0)
                   \<and> isNormalPending products r \<longrightarrow> s_id r \<in> s_id ` set ups"
  shows "set (applyUpdates ups schedules)
           = {s \<in> set schedules. \<not> (sameCalendarDay (startTime s) (setHours d 0 0)
                                       \<and> isNormalPending products s)} \<union> set ups"
proof -
  define g where "g = (\<lambda>s. foldl (\<lambda>s u. if s_id s = s_id u then u else s) s ups)"
  define movable where
    "movable = (\<lambda>s. sameCalendarDay (startTime s) (setHours d 0 0) \<and> isNormalPending products s)"
  have dU: "distinct (map s_id ups)"
    unfolding first using ids by (rule placements_distinct_ids)
  have inj: "inj_on s_id (set schedules)"
    using ids by (simp add: distinct_map)
  have origin: "\<exists>r \<in> set schedules. movable r \<and> s_id r = s_id u" if "u \<in> set ups" for u
    using placement_origin [OF that [unfolded first]] unfolding movable_def by blast
  have moved: "g s \<in> set ups" if s: "s \<in> set schedules" and m: "movable s" for s
  proof -
    from placed s m obtain u where u: "u \<in> set ups" and eq: "s_id s = s_id u"
      unfolding movable_def by (metis (no_types, lifting) imageE)
    from foldl_replace_one [OF dU u eq [symmetric]] u show ?thesis
      by (simp add: g_def)
  qed
  have kept: "g s = s" if s: "s \<in> set schedules" and m: "\<not> movable s" for s
  proof -
    have "s_id s \<notin> s_id ` set ups"
    proof
      assume "s_id s \<in> s_id ` set ups"
      then obtain u where u: "u \<in> set ups" and eq: "s_id s = s_id u"
        by (rule imageE)
      from origin [OF u] obtain r where r: "r \<in> set schedules" and mr: "movable r"
        and er: "s_id r = s_id u"
        by blast
      from inj s r eq er have "s = r"
        by (simp add: inj_on_def)
      with mr m show False by simp
    qed
    then show ?thesis
      unfolding g_def by (rule foldl_replace_none)
  qed
  have written: "u \<in> g ` set schedules" if u: "u \<in> set ups" for u
  proof -
    from origin [OF u] obtain r where r: "r \<in> set schedules" and er: "s_id r = s_id u"
      by blast
    from foldl_replace_one [OF dU u er [symmetric]] have "g r = u"
      by (simp add: g_def)
    with r show ?thesis by (metis imageI)
  qed
  have "g ` set schedules = {s \<in> set schedules. \<not> movable s} \<union> set ups"
  proof (intro equalityI subsetI)
    fix x
    assume "x \<in> g ` set schedules"
    then obtain s where s: "s \<in> set schedules" and x: "x = g s"
      by (rule imageE)
    show "x \<in> {s \<in> set schedules. \<not> movable s} \<union> set ups"
    proof (cases "movable s")
      case True
      from moved [OF s True] x show ?thesis by simp
    next
      case False
      from kept [OF s False] x s False show ?thesis by simp
    qed
  next
    fix x
    assume "x \<in> {s \<in> set schedules. \<not> movable s} \<union> set ups"
    then consider "x \<in> set schedules" "\<not> movable x" | "x \<in> set ups" by auto
    then show "x \<in> g ` set schedules"
    proof cases
      case 1
      from kept [OF 1] 1(1) show ?thesis by (metis imageI)
    next
      case 2
      then show ?thesis by (rule written)
    qed
  qed
  then show ?thesis
    unfolding set_applyUpdates g_def movable_def .
qed

lemma find_Some_mem: "find P xs = Some x \<Longrightarrow> x \<in> set xs"
  by (auto simp: find_Some_iff)

lemma searchWindow_origin:
  assumes line: "getProductionLineById productionLines lid = Some line"
    and hours: "\<forall>line \<in> set productionLines. \<forall>oh \<in> set (operatingHours line).
                  0 \<le> timeToMinutes (oh_startTime oh)"
  shows "\<forall>oe eff. searchWindow line (setHours d 0 0) isToday now = Some (oe, eff)
           \<longrightarrow> setHours d 0 0 \<le> eff"
proof (intro allI impI)
  fix oe eff
  assume w: "searchWindow line (setHours d 0 0) isToday now = Some (oe, eff)"
  then obtain oh where oh: "lineOpHoursForDay line (getDay (setHours d 0 0)) = Some oh"
    and eff: "eff = effectiveStartOfSearchWindow (setHours d 0 0) isToday now
                      (timeToMinutes (oh_startTime oh))"
    by (auto simp: searchWindow_def split: option.splits if_splits)
  from line have "line \<in> set productionLines"
    unfolding getProductionLineById_def by (rule find_Some_mem)
  moreover from oh have "oh \<in> set (operatingHours line)"
    unfolding lineOpHoursForDay_def by (rule find_Some_mem)
  ultimately have "0 \<le> timeToMinutes (oh_startTime oh)"
    using hours by blast
  then show "setHours d 0 0 \<le> eff"
    unfolding eff by (rule effectiveStart_ge)
qed

lemma placement_positive:
  assumes "u \<in> set (schedulesToUpdate (optimizeDaySchedulesOp products productionLines schedules now d))"
  shows "startTime u < endTime u"
proof -
  from placement_line [OF assms] obtain line where
    "u \<in> set (placeAll products line (setHours d 0 0) (sameCalendarDay (setHours d 0 0) now) now
         (sort_key startTime (fixedOf products
            (schedulesStartingOnTargetDay schedules (setHours d 0 0)) (lineId u)))
         (sort_key startTime (normalsOf products
            (schedulesStartingOnTargetDay schedules (setHours d 0 0)) (lineId u))))"
    by (auto simp: linePlacements_def split: option.splits)
  with placeAll_found show ?thesis by blast
qed

lemma placement_within_day:
  assumes u: "u \<in> set (schedulesToUpdate (optimizeDaySchedulesOp products productionLines schedules now d))"
    and w: "setHours d 0 0 \<le> startTime u \<and> endTime u < setHours d 0 0 + msPerDay"
  shows "Day (startTime u) = Day (setHours d 0 0) \<and> Day (endTime u) = Day (setHours d 0 0)"
proof -
  from placement_positive [OF u] have pos: "startTime u < endTime u" .
  from w have lo: "Day d * 86400000 \<le> startTime u"
    and hi: "endTime u < Day d * 86400000 + 86400000"
    by (simp_all add: setHours_midnight msPerDay_def)
  from lo pos hi have "Day (startTime u) = Day d"
    by (intro Day_within) simp_all
  moreover from lo pos hi have "Day (endTime u) = Day d"
    by (intro Day_within) simp_all
  ultimately show ?thesis by simp
qed

text \<open>On every line, the second pass places the placements of the first where they are.\<close>

lemma second_pass_line:
  assumes ids: "distinct (map s_id schedules)"
    and first: "ups = schedulesToUpdate (optimizeDaySchedulesOp products productionLines schedules now d)"
    and placed: "\<forall>r \<in> set schedules. sameCalendarDay (startTime r) (setHours d 0 0)
                   \<and> isNormalPending products r \<longrightarrow> s_id r \<in> s_id ` set ups"
    and within: "\<forall>u \<in> set ups. setHours d 0 0 \<le> startTime u
                   \<and> endTime u < setHours d 0 0 + msPerDay"
    and hours: "\<forall>line \<in> set productionLines. \<forall>oh \<in> set (operatingHours line).
                  0 \<le> timeToMinutes (oh_startTime oh)"
  shows "set (linePlacements products productionLines
                (schedulesStartingOnTargetDay (applyUpdates ups schedules) (setHours d 0 0))
                (setHours d 0 0) (sameCalendarDay (setHours d 0 0) now) now lid)
       = set (linePlacements products productionLines
                (schedulesStartingOnTargetDay schedules (setHours d 0 0))
                (setHours d 0 0) (sameCalendarDay (setHours d 0 0) now) now lid)"
proof -
  define T where "T = setHours d 0 0"
  define isT where "isT = sameCalendarDay T now"
  define onDay where "onDay = schedulesStartingOnTargetDay schedules T"
  define S' where "S' = applyUpdates ups schedules"
  define onDay' where "onDay' = schedulesStartingOnTargetDay S' T"
  define us where "us = linePlacements products productionLines onDay T isT now lid"
  note applied = applied_set [OF ids first placed, folded T_def S'_def]
  have in_ups: "u \<in> set ups" if "u \<in> set us" for u
    using that unfolding us_def onDay_def isT_def T_def first
    by (rule line_placement_is_placement)
  have np: "isNormalPending products u" if "u \<in> set ups" for u
    using optimizer_places_only_normal_pending [OF that [unfolded first]]
    by (simp add: isNormalPending_def)
  have day: "Day (startTime u) = Day T \<and> Day (endTime u) = Day T" if u: "u \<in> set ups" for u
    unfolding T_def
    using u within by (intro placement_within_day [OF u [unfolded first]]) blast
  have same: "sameCalendarDay (startTime u) T" if u: "u \<in> set ups" for u
    using day [OF u] by (intro sameCalendarDay_Day) simp
  have line_of: "u \<in> set us \<longleftrightarrow> u \<in> set ups \<and> lineId u = lid" for u
  proof
    assume u: "u \<in> set us"
    from linePlacements_lineId [OF u [unfolded us_def]] in_ups [OF u]
    show "u \<in> set ups \<and> lineId u = lid" by simp
  next
    assume u: "u \<in> set ups \<and> lineId u = lid"
    then have "u \<in> set (schedulesToUpdate
        (optimizeDaySchedulesOp products productionLines schedules now d))"
      by (simp add: first)
    from placement_line [OF this] u show "u \<in> set us"
      by (simp add: us_def onDay_def isT_def T_def)
  qed
  have fixed: "set (fixedOf products onDay' lid) = set (fixedOf products onDay lid)"
  proof (intro equalityI subsetI)
    fix x
    assume "x \<in> set (fixedOf products onDay' lid)"
    then have x: "x \<in> set S'" "sameCalendarDay (startTime x) T" "lineId x = lid"
      "\<not> isNormalPending products x"
      by (simp_all add: fixedOf_def onDay'_def schedulesStartingOnTargetDay_def)
    from x(1,4) applied np have "x \<in> set schedules" by auto
    with x show "x \<in> set (fixedOf products onDay lid)"
      by (simp add: fixedOf_def onDay_def schedulesStartingOnTargetDay_def)
  next
    fix x
    assume "x \<in> set (fixedOf products onDay lid)"
    then have x: "x \<in> set schedules" "sameCalendarDay (startTime x) T" "lineId x = lid"
      "\<not> isNormalPending products x"
      by (simp_all add: fixedOf_def onDay_def schedulesStartingOnTargetDay_def)
    from x(1,4) applied have "x \<in> set S'" by simp
    with x show "x \<in> set (fixedOf products onDay' lid)"
      by (simp add: fixedOf_def onDay'_def schedulesStartingOnTargetDay_def)
  qed
  have normals: "set (normalsOf products onDay' lid) = set us"
  proof (intro equalityI subsetI)
    fix x
    assume "x \<in> set (normalsOf products onDay' lid)"
    then have x: "x \<in> set S'" "sameCalendarDay (startTime x) T" "lineId x = lid"
      "isNormalPending products x"
      by (simp_all add: normalsOf_def onDay'_def schedulesStartingOnTargetDay_def)
    from x(1,2,4) applied have "x \<in> set ups" by simp
    with x(3) show "x \<in> set us" by (simp add: line_of)
  next
    fix x
    assume "x \<in> set us"
    then have x: "x \<in> set ups" "lineId x = lid" by (simp_all add: line_of)
    from x(1) applied have "x \<in> set S'" by simp
    with x same [OF x(1)] np [OF x(1)] show "x \<in> set (normalsOf products onDay' lid)"
      by (simp add: normalsOf_def onDay'_def schedulesStartingOnTargetDay_def)
  qed
  have "set (linePlacements products productionLines onDay' T isT now lid) = set us"
  proof (cases "getProductionLineById productionLines lid")
    case None
    then show ?thesis by (simp add: linePlacements_def us_def)
  next
    case (Some line)
    define F where "F = sort_key startTime (fixedOf products onDay lid)"
    define rest where "rest = sort_key startTime (normalsOf products onDay' lid)"
    define slots' where "slots' = sort_key startTime (fixedOf products onDay' lid)"
    have us: "us = placeAll products line T isT now F
                     (sort_key startTime (normalsOf products onDay lid))"
      by (simp add: us_def linePlacements_def Some F_def)
    have dS': "distinct (map s_id S')"
      unfolding S'_def using ids by (rule distinct_ids_applyUpdates)
    have "placeAll products line T isT now slots' rest = rest"
    proof (rule replay [where us = us and F = F])
      show "\<forall>y \<in> set us. startTime y < endTime y"
        unfolding us using placeAll_found by blast
      show "\<forall>y \<in> set us. \<forall>e \<in> set F. \<not> runsOverlap y e"
        unfolding us using placeAll_free by blast
      show "\<forall>y \<in> set us. \<forall>u \<in> set us. y \<noteq> u \<longrightarrow> \<not> runsOverlap y u"
        unfolding us by (rule placeAll_pairwise)
      show "\<forall>y \<in> set us. \<exists>slots0. set slots0 \<subseteq> set F \<union> (set us - {y})
              \<and> findPlacement products line T isT now slots0 y = Some (startTime y, endTime y)"
        unfolding us using placeAll_found by blast
      show "\<forall>y \<in> set us. Day (startTime y) = Day T \<and> Day (endTime y) = Day T"
        using day in_ups by blast
      show "\<forall>oe eff. searchWindow line T isT now = Some (oe, eff) \<longrightarrow> T \<le> eff"
        unfolding T_def by (rule searchWindow_origin [OF Some hours])
      show "set rest \<subseteq> set us"
        by (simp add: rest_def normals)
      show "distinct rest"
        unfolding rest_def normalsOf_def onDay'_def schedulesStartingOnTargetDay_def
        using dS' by (simp add: distinct_map)
      show "sorted (map startTime rest)"
        by (simp add: rest_def)
      show "set slots' = set F \<union> (set us - set rest)"
        by (simp add: slots'_def F_def rest_def fixed normals)
    qed
    then show ?thesis
      by (simp add: linePlacements_def Some slots'_def rest_def normals)
  qed
  then show ?thesis
    unfolding us_def onDay'_def onDay_def S'_def isT_def T_def .
qed

section \<open>A second invocation of the optimizer\<close>

text \<open>
  Claim C7, as amended.  Let the first invocation, on a list of runs with distinct ids and
  with operating hours whose start times are not negative, have placed every Normal and
  pending run that starts on the target day, each within that calendar day.  Then a second
  invocation with the same clock reading, on the list with those placements written,
  emits the same placements again: no run changes its start or end, the list after the
  second write is the list after the first, and the count returned is the count of the
  first invocation, not 0.
\<close>

theorem C7_second_pass_repeats_the_first:
  assumes ids: "distinct (map s_id schedules)"
    and first: "ups = schedulesToUpdate (optimizeDaySchedulesOp products productionLines schedules now d)"
    and placed: "\<forall>r \<in> set schedules. sameCalendarDay (startTime r) (setHours d 0 0)
                   \<and> isNormalPending products r \<longrightarrow> s_id r \<in> s_id ` set ups"
    and within: "\<forall>u \<in> set ups. setHours d 0 0 \<le> startTime u
                   \<and> endTime u < setHours d 0 0 + msPerDay"
    and hours: "\<forall>line \<in> set productionLines. \<forall>oh \<in> set (operatingHours line).
                  0 \<le> timeToMinutes (oh_startTime oh)"
    and second: "st2 = optimizeDaySchedulesOp products productionLines
                         (applyUpdates ups schedules) now d"
  shows "set (schedulesToUpdate st2) = set ups
       \<and> applyUpdates (schedulesToUpdate st2) (applyUpdates ups schedules)
           = applyUpdates ups schedules
       \<and> optimizedCount st2
           = optimizedCount (optimizeDaySchedulesOp products productionLines schedules now d)"
proof -
  define S' where "S' = applyUpdates ups schedules"
  note applied = applied_set [OF ids first placed, folded S'_def]
  note lines = second_pass_line [OF ids first placed within hours, folded S'_def]
  have dS': "distinct (map s_id S')"
    unfolding S'_def using ids by (rule distinct_ids_applyUpdates)
  have sets: "set (schedulesToUpdate st2) = set ups"
  proof (intro equalityI subsetI)
    fix x
    assume "x \<in> set (schedulesToUpdate st2)"
    then have "x \<in> set (schedulesToUpdate
        (optimizeDaySchedulesOp products productionLines S' now d))"
      by (simp add: second S'_def)
    from placement_line [OF this] have "x \<in> set (linePlacements products productionLines
        (schedulesStartingOnTargetDay schedules (setHours d 0 0))
        (setHours d 0 0) (sameCalendarDay (setHours d 0 0) now) now (lineId x))"
      by (simp only: lines)
    then show "x \<in> set ups"
      unfolding first by (rule line_placement_is_placement)
  next
    fix x
    assume x: "x \<in> set ups"
    then have "x \<in> set (schedulesToUpdate
        (optimizeDaySchedulesOp products productionLines schedules now d))"
      by (simp add: first)
    from placement_line [OF this] have "x \<in> set (linePlacements products productionLines
        (schedulesStartingOnTargetDay S' (setHours d 0 0))
        (setHours d 0 0) (sameCalendarDay (setHours d 0 0) now) now (lineId x))"
      by (simp only: lines)
    then have "x \<in> set (schedulesToUpdate
        (optimizeDaySchedulesOp products productionLines S' now d))"
      by (rule line_placement_is_placement)
    then show "x \<in> set (schedulesToUpdate st2)"
      by (simp add: second S'_def)
  qed
  have d1: "distinct ups"
    using placements_distinct_ids [OF ids, of products productionLines now d]
    by (simp add: first distinct_map)
  have d2: "distinct (schedulesToUpdate st2)"
    using placements_distinct_ids [OF dS', of products productionLines now d]
    by (simp add: second S'_def distinct_map)
  have "length (schedulesToUpdate st2) = length ups"
    using sets distinct_card [OF d1] distinct_card [OF d2] by simp
  then have count: "optimizedCount st2
      = optimizedCount (optimizeDaySchedulesOp products productionLines schedules now d)"
    by (simp add: optimize_count second first)
  have same: "applyUpdates (schedulesToUpdate st2) S' = S'"
  proof (cases "ups = []")
    case True
    with sets show ?thesis by (simp add: applyUpdates_def)
  next
    case False
    then have "sorted (map startTime S')"
      unfolding S'_def by (rule sorted_applyUpdates)
    moreover have "set (schedulesToUpdate st2) \<subseteq> set S'"
      using sets applied by simp
    ultimately show ?thesis
      using dS' by (intro applyUpdates_same)
  qed
  from sets same count show ?thesis
    by (simp add: S'_def)
qed

theorem C7_second_pass_repeats_the_first_witness:
  "distinct (map s_id [runOn ''t'' ''pt'' (clock 9 0) (clock 10 0) 1 Pendente,
                       runOn ''a'' ''pn'' (clock 8 0) (clock 9 0) 1 Pendente,
                       runOn ''b'' ''pn'' (clock 8 0) (clock 10 0) 2 Pendente])
   \<and> schedulesToUpdate (optimizeDaySchedulesOp [normalProduct, topProduct] [lineL]
        [runOn ''t'' ''pt'' (clock 9 0) (clock 10 0) 1 Pendente,
         runOn ''a'' ''pn'' (clock 8 0) (clock 9 0) 1 Pendente,
         runOn ''b'' ''pn'' (clock 8 0) (clock 10 0) 2 Pendente] 0 monday)
       = [runOn ''a'' ''pn'' (clock 8 0) (clock 9 0) 1 Pendente,
          runOn ''b'' ''pn'' (clock 10 0) (clock 12 0) 2 Pendente]
   \<and> set (schedulesToUpdate (optimizeDaySchedulesOp [normalProduct, topProduct] [lineL]
        (applyUpdates [runOn ''a'' ''pn'' (clock 8 0) (clock 9 0) 1 Pendente,
                       runOn ''b'' ''pn'' (clock 10 0) (clock 12 0) 2 Pendente]
           [runOn ''t'' ''pt'' (clock 9 0) (clock 10 0) 1 Pendente,
            runOn ''a'' ''pn'' (clock 8 0) (clock 9 0) 1 Pendente,
            runOn ''b'' ''pn'' (clock 8 0) (clock 10 0) 2 Pendente]) 0 monday))
       = set [runOn ''a'' ''pn'' (clock 8 0) (clock 9 0) 1 Pendente,
              runOn ''b'' ''pn'' (clock 10 0) (clock 12 0) 2 Pendente]
   \<and> optimizedCount (optimizeDaySchedulesOp [normalProduct, topProduct] [lineL]
        (applyUpdates [runOn ''a'' ''pn'' (clock 8 0) (clock 9 0) 1 Pendente,
                       runOn ''b'' ''pn'' (clock 10 0) (clock 12 0) 2 Pendente]
           [runOn ''t'' ''pt'' (clock 9 0) (clock 10 0) 1 Pendente,
            runOn ''a'' ''pn'' (clock 8 0) (clock 9 0) 1 Pendente,
            runOn ''b'' ''pn'' (clock 8 0) (clock 10 0) 2 Pendente]) 0 monday) = 2"
proof -
  let ?S = "[runOn ''t'' ''pt'' (clock 9 0) (clock 10 0) 1 Pendente,
             runOn ''a'' ''pn'' (clock 8 0) (clock 9 0) 1 Pendente,
             runOn ''b'' ''pn'' (clock 8 0) (clock 10 0) 2 Pendente]"
  let ?U = "[runOn ''a'' ''pn'' (clock 8 0) (clock 9 0) 1 Pendente,
             runOn ''b'' ''pn'' (clock 10 0) (clock 12 0) 2 Pendente]"
  let ?P = "[normalProduct, topProduct]"
  have ids: "distinct (map s_id ?S)"
    by code_simp
  have first: "?U = schedulesToUpdate (optimizeDaySchedulesOp ?P [lineL] ?S 0 monday)"
    by code_simp
  have placed: "\<forall>r \<in> set ?S. sameCalendarDay (startTime r) (setHours monday 0 0)
                   \<and> isNormalPending ?P r \<longrightarrow> s_id r \<in> s_id ` set ?U"
    by code_simp
  have within: "\<forall>u \<in> set ?U. setHours monday 0 0 \<le> startTime u
                   \<and> endTime u < setHours monday 0 0 + msPerDay"
    by code_simp
  have hours: "\<forall>line \<in> set [lineL]. \<forall>oh \<in> set (operatingHours line).
                  0 \<le> timeToMinutes (oh_startTime oh)"
    by code_simp
  have count: "optimizedCount (optimizeDaySchedulesOp ?P [lineL] ?S 0 monday) = 2"
    by code_simp
  from C7_second_pass_repeats_the_first [OF ids first placed within hours refl]
    ids first count
  show ?thesis by simp
qed

text \<open>One run to optimize, moved to 08:00 by the first invocation: the second places it
  at 08:00 again and counts it again.\<close>

theorem C7_count_of_the_second_pass_counterexample:
  "schedulesToUpdate (optimizeDaySchedulesOp [normalProduct, topProduct] [lineL]
      [runOn ''b'' ''pn'' (clock 10 0) (clock 11 0) 1 Pendente] 0 monday)
     = [runOn ''b'' ''pn'' (clock 8 0) (clock 9 0) 1 Pendente]
   \<and> optimizedCount (optimizeDaySchedulesOp [normalProduct, topProduct] [lineL]
        (applyUpdates [runOn ''b'' ''pn'' (clock 8 0) (clock 9 0) 1 Pendente]
           [runOn ''b'' ''pn'' (clock 10 0) (clock 11 0) 1 Pendente]) 0 monday) = 1"
  by code_simp

text \<open>Where the first invocation leaves a run unplaced, the second one can move it: here
  the second pass puts the run left at 08:30 on top of the run that the first pass placed
  from 09:00 to 10:00.\<close>

lemma second_pass_moves_a_run_left_unplaced:
  "schedulesToUpdate (optimizeDaySchedulesOp [normalProduct, topProduct] [shortLine]
      [runOn ''f'' ''pt'' (clock 8 0) (clock 9 0) 1 Pendente,
       runOn ''m1'' ''pn'' (clock 8 0) (clock 9 0) 1 Pendente,
       runOn ''m2'' ''pn'' (clock 8 30) (clock 9 30) 1 Pendente] 0 monday)
     = [runOn ''m1'' ''pn'' (clock 9 0) (clock 10 0) 1 Pendente]
   \<and> schedulesToUpdate (optimizeDaySchedulesOp [normalProduct, topProduct] [shortLine]
        (applyUpdates [runOn ''m1'' ''pn'' (clock 9 0) (clock 10 0) 1 Pendente]
          [runOn ''f'' ''pt'' (clock 8 0) (clock 9 0) 1 Pendente,
           runOn ''m1'' ''pn'' (clock 8 0) (clock 9 0) 1 Pendente,
           runOn ''m2'' ''pn'' (clock 8 30) (clock 9 30) 1 Pendente]) 0 monday)
     = [runOn ''m2'' ''pn'' (clock 9 0) (clock 10 0) 1 Pendente]"
  by code_simp

section \<open>Runs of a TopSeller product stay where they are\<close>

lemma classificationOf_moved [simp]:
  "classificationOf products (r\<lparr>lineId := l\<rparr>) = classificationOf products r"
  "classificationOf products (r\<lparr>startTime := s\<rparr>) = classificationOf products r"
  "classificationOf products (r\<lparr>endTime := e\<rparr>) = classificationOf products r"
  by (simp_all add: classificationOf_def)








text \<open>The same gesture on the run \<open>b\<close> hands \<open>b\<close> to the store, from 11:00 to 12:00.\<close>

lemma gesture_moves_a_pending_Normal_run:
  "movesOf [normalProduct, topProduct] [lineL]
      [runOn ''t'' ''pt'' (clock 9 0) (clock 10 0) 1 Pendente,
       runOn ''b'' ''pn'' (clock 9 0) (clock 10 0) 1 Pendente] monday 0 0 noDrag
      [DragStart (runOn ''b'' ''pn'' (clock 9 0) (clock 10 0) 1 Pendente),
       DragOver ''L'' 660, Drop ''L'' 660]
     = [runOn ''b'' ''pn'' (clock 11 0) (clock 12 0) 1 Pendente]"
  by code_simp

section \<open>The verdict of the validator\<close>









text \<open>The start that the chart proposes, for a snapped minute of the day, lies on the
  chart's day.\<close>

lemma snappedStartTime_on_day:
  assumes "0 \<le> snappedMinutes" and "snappedMinutes < 1440"
  shows "setHours day 0 0 \<le> snappedStartTime day snappedMinutes
       \<and> snappedStartTime day snappedMinutes < setHours day 0 0 + msPerDay"
  using assms by (simp add: snappedStartTime_def setHours_minutes setHours_midnight msPerDay_def)




text \<open>The other points at which the verdict leaves the words of the claim.  A run of
  sixty minutes and a half, dropped at 16:00, ends at 17:00:30, after the end of the
  operating hours, and is accepted: the end is read in whole minutes.\<close>

lemma validator_accepts_an_end_within_the_minute_after_the_window:
  "checkDropValidity [normalProduct, topProduct] [lineL]
      [runOn ''b'' ''pn'' (clock 8 0) (clock 9 0 + 30000) 1 Pendente] monday 0 0
      (runOn ''b'' ''pn'' (clock 8 0) (clock 9 0 + 30000) 1 Pendente) ''L'' (clock 16 0)
     = \<lparr>valid = True, message = None\<rparr>
   \<and> operatingWindowOn lineL (getDay monday)
       = Some \<lparr>dayOfWeek = 1, oh_startTime = ''08:00'', oh_endTime = ''17:00'', isActive = True\<rparr>
   \<and> setHours monday 0 0 + timeToMinutes ''17:00'' * 60000 < clock 16 0 + (clock 9 0 + 30000 - clock 8 0)"
  by code_simp

text \<open>A TopSeller run of the line that started on Sunday at 23:00 and ends on Monday at
  09:00 is not among the runs tested: the drop of \<open>b\<close> at 08:00 is accepted.\<close>

lemma validator_passes_over_a_run_from_the_day_before:
  "checkDropValidity [normalProduct, topProduct] [lineL]
      [runOn ''t'' ''pt'' (monday - 3600000) (clock 9 0) 10 Pendente,
       runOn ''b'' ''pn'' (clock 10 0) (clock 11 0) 1 Pendente] monday 0 0
      (runOn ''b'' ''pn'' (clock 10 0) (clock 11 0) 1 Pendente) ''L'' (clock 8 0)
     = \<lparr>valid = True, message = None\<rparr>
   \<and> overlaps (clock 8 0) (clock 9 0) (monday - 3600000) (clock 9 0)"
  by code_simp

text \<open>A run of thirty-one days and an hour, dropped at 08:00 on Monday 1 January, ends on
  1 February at 09:00, which shows the same day of the month: the drop is accepted.\<close>

lemma validator_accepts_an_end_a_month_later:
  "checkDropValidity [normalProduct, topProduct] [lineL]
      [runOn ''b'' ''pn'' (clock 10 0) (clock 11 0 + 31 * msPerDay) 1 Pendente] monday 0 0
      (runOn ''b'' ''pn'' (clock 10 0) (clock 11 0 + 31 * msPerDay) 1 Pendente) ''L'' (clock 8 0)
     = \<lparr>valid = True, message = None\<rparr>
   \<and> getDate (clock 9 0 + 31 * msPerDay) = 1 \<and> getMonth (clock 9 0 + 31 * msPerDay) = 1"
  by code_simp

section \<open>The end of a placement and the end of the operating hours\<close>

lemma effectiveStart_ge_window:
  "setHours d 0 0 + s * 60000 \<le> effectiveStartOfSearchWindow (setHours d 0 0) isToday now s"
  by (auto simp: effectiveStartOfSearchWindow_def setHours_minutes setHours_midnight)

text \<open>What the tests of the search loop do give for every placement: it starts at or
  after the start of the line's operating hours on the target day, and its end shows the
  target day's day of the month and a minute of the day that is not after the end of the
  operating hours.\<close>

lemma placement_passes_the_loop_tests:
  assumes "u \<in> set (schedulesToUpdate (optimizeDaySchedulesOp products productionLines schedules now d))"
  shows "\<exists>line oh. getProductionLineById productionLines (lineId u) = Some line
           \<and> lineOpHoursForDay line (getDay (setHours d 0 0)) = Some oh \<and> isActive oh
           \<and> setHours d 0 0 + timeToMinutes (oh_startTime oh) * 60000 \<le> startTime u
           \<and> getDate (endTime u) = getDate (setHours d 0 0)
           \<and> minutesOfDay (endTime u) \<le> timeToMinutes (oh_endTime oh)"
proof -
  note lp = placement_line [OF assms]
  then obtain line where
    line: "getProductionLineById productionLines (lineId u) = Some line"
    by (cases "getProductionLineById productionLines (lineId u)")
      (simp_all add: linePlacements_def)
  with lp have
    "u \<in> set (placeAll products line (setHours d 0 0) (sameCalendarDay (setHours d 0 0) now) now
         (sort_key startTime (fixedOf products
            (schedulesStartingOnTargetDay schedules (setHours d 0 0)) (lineId u)))
         (sort_key startTime (normalsOf products
            (schedulesStartingOnTargetDay schedules (setHours d 0 0)) (lineId u))))"
    by (simp add: linePlacements_def)
  with placeAll_found obtain slots' where
    "findPlacement products line (setHours d 0 0) (sameCalendarDay (setHours d 0 0) now) now slots' u
       = Some (startTime u, endTime u)"
    by blast
  then obtain oe eff where
    w: "searchWindow line (setHours d 0 0) (sameCalendarDay (setHours d 0 0) now) now = Some (oe, eff)"
    and s: "searchSlot (setHours d 0 0) oe (durationOf products line u) eff slots' eff
              = Some (startTime u, endTime u)"
    by (auto elim: findPlacement_SomeD)
  from w obtain oh where oh: "lineOpHoursForDay line (getDay (setHours d 0 0)) = Some oh"
    and act: "isActive oh" and oe: "oe = timeToMinutes (oh_endTime oh)"
    and eff: "eff = effectiveStartOfSearchWindow (setHours d 0 0)
                      (sameCalendarDay (setHours d 0 0) now) now (timeToMinutes (oh_startTime oh))"
    by (auto simp: searchWindow_def split: option.splits if_splits)
  from searchSlot_Some_basic [OF s] have
    "getDate (endTime u) = getDate (setHours d 0 0)" "minutesOfDay (endTime u) \<le> oe"
    by (auto simp: slotAllowed_def)
  moreover from searchSlot_Some_earliest [OF s] have "eff \<le> startTime u"
    by simp
  then have "setHours d 0 0 + timeToMinutes (oh_startTime oh) * 60000 \<le> startTime u"
    using effectiveStart_ge_window [of d "timeToMinutes (oh_startTime oh)"
        "sameCalendarDay (setHours d 0 0) now" now]
    unfolding eff by simp
  ultimately show ?thesis
    using line oh act oe by blast
qed

text \<open>
  Claim C2 at a failing input.  A fixed run occupies the line from 08:00 to 16:00:30.  The
  search retries at 16:00:30; the end, 17:00:30, shows the minute 17:00 of the day, which
  is not after the end of the operating hours, so the run is placed there and ends thirty
  seconds after the line stops.
\<close>

theorem C2_placement_ends_after_the_window:
  "schedulesToUpdate (optimizeDaySchedulesOp [normalProduct, topProduct] [lineL]
      [runOn ''t'' ''pt'' (clock 8 0) (clock 16 0 + 30000) 8 Pendente,
       runOn ''b'' ''pn'' (clock 8 30) (clock 9 30) 1 Pendente] 0 monday)
     = [runOn ''b'' ''pn'' (clock 16 0 + 30000) (clock 17 0 + 30000) 1 Pendente]
   \<and> lineOpHoursForDay lineL (getDay (setHours monday 0 0))
       = Some \<lparr>dayOfWeek = 1, oh_startTime = ''08:00'', oh_endTime = ''17:00'', isActive = True\<rparr>
   \<and> setHours monday 0 0 + timeToMinutes ''17:00'' * 60000
       < endTime (runOn ''b'' ''pn'' (clock 16 0 + 30000) (clock 17 0 + 30000) 1 Pendente)"
  by code_simp

end
